theory Spec2Isabelle
  imports Complex_Main "HOL-Library.Sublist"
begin

section \<open>Text processing: non-speech tags and the uncertainty heuristic\<close>

text \<open>
  A JavaScript string is a sequence of UTF-16 code units; a code unit is modelled as a
  natural number. \<open>str\<close> turns an ASCII literal into such a sequence. Durations and
  time offsets in seconds are rationals (the source uses IEEE doubles), timestamps of
  \<open>Date.now()\<close> are integers (milliseconds).
\<close>

type_synonym jsstring = "nat list"

definition str :: "string \<Rightarrow> jsstring" where
  "str s = map of_char s"

text \<open>The class \<open>\s\<close> of a JavaScript regular expression, which is also what \<open>trim()\<close> removes.\<close>

definition isWhiteSpace :: "nat \<Rightarrow> bool" where
  "isWhiteSpace c \<longleftrightarrow>
     c \<in> set [9, 10, 11, 12, 13, 32, 160, 5760, 8232, 8233, 8239, 8287, 12288, 65279]
     \<or> (8192 \<le> c \<and> c \<le> 8202)"

text \<open>The characters that \<open>.\<close> does not match.\<close>

definition isLineTerminator :: "nat \<Rightarrow> bool" where
  "isLineTerminator c \<longleftrightarrow> c \<in> set [10, 13, 8232, 8233]"

text \<open>
  Case folding of the \<open>i\<close> flag (without \<open>u\<close>): a code unit is compared through its upper
  case. The patterns below contain only ASCII characters and the letter a-umlaut, so the
  folding is written out for ASCII and Latin-1 letters; no other code unit folds onto one
  of the pattern characters.
\<close>

definition canonicalize :: "nat \<Rightarrow> nat" where
  "canonicalize c =
     (if (97 \<le> c \<and> c \<le> 122) \<or> (224 \<le> c \<and> c \<le> 254 \<and> c \<noteq> 247) then c - 32 else c)"

text \<open>
  The regular expressions of \<open>nonSpeechTagPatterns\<close> are sequences of single-character
  atoms, each with a greedy repetition range: a literal character, \<open>\s\<close>, or a negated
  one-character class \<open>[^x]\<close>.
\<close>

datatype atom = Ch nat | WS | NotCh nat

datatype piece = Piece atom nat "nat option"

fun atomMatches :: "atom \<Rightarrow> nat \<Rightarrow> bool" where
  "atomMatches (Ch p) c = (canonicalize c = canonicalize p)"
| "atomMatches WS c = isWhiteSpace c"
| "atomMatches (NotCh p) c = (canonicalize c \<noteq> canonicalize p)"

text \<open>
  Greedy repetition with backtracking: with \<open>n\<close> characters available, try to consume
  \<open>n\<close>, then \<open>n - 1\<close>, ... down to the lower bound, and continue with the rest of the
  pattern; the first success wins. The result is the input that remains after the match.
\<close>

primrec backtrack ::
  "(jsstring \<Rightarrow> jsstring option) \<Rightarrow> jsstring \<Rightarrow> nat \<Rightarrow> nat \<Rightarrow> jsstring option" where
  "backtrack cont s lo 0 = (if lo = 0 then cont s else None)"
| "backtrack cont s lo (Suc n) =
     (if Suc n < lo then None
      else (case cont (drop (Suc n) s) of
              Some r \<Rightarrow> Some r
            | None \<Rightarrow> backtrack cont s lo n))"

primrec matchPieces :: "piece list \<Rightarrow> jsstring \<Rightarrow> jsstring option" where
  "matchPieces [] s = Some s"
| "matchPieces (p # ps) s =
     (case p of Piece a lo hi \<Rightarrow>
        (let n = length (takeWhile (atomMatches a) s);
             m = (case hi of None \<Rightarrow> n | Some h \<Rightarrow> min h n)
         in backtrack (matchPieces ps) s lo m))"

text \<open>
  \<open>s.replace(re, rep)\<close> for a global regular expression: scan from the left, replace
  each match and continue behind it; where nothing (or only the empty string) matches,
  keep the character and move on.
\<close>

fun replaceAll :: "piece list \<Rightarrow> jsstring \<Rightarrow> jsstring \<Rightarrow> jsstring" where
  "replaceAll ps rep [] = []"
| "replaceAll ps rep (c # cs) =
     (case matchPieces ps (c # cs) of
        None \<Rightarrow> c # replaceAll ps rep cs
      | Some rest \<Rightarrow>
          if length rest \<le> length cs then rep @ replaceAll ps rep rest
          else c # replaceAll ps rep cs)"

definition lit :: "jsstring \<Rightarrow> piece list" where
  "lit s = map (\<lambda>c. Piece (Ch c) 1 (Some 1)) s"

definition spaces :: "piece" where
  "spaces = Piece WS 0 None"

text \<open>\<open>/\(\s*WORD\s*\)/gi\<close>, \<open>/\*\s*WORD\s*\*/gi\<close> and \<open>/\*[^*]{1,30}WORD[^*]*\*/gi\<close>\<close>

definition parenTag :: "jsstring \<Rightarrow> piece list" where
  "parenTag w = lit (str ''('') @ [spaces] @ lit w @ [spaces] @ lit (str '')'')"

definition starTag :: "jsstring \<Rightarrow> piece list" where
  "starTag w = lit (str ''*'') @ [spaces] @ lit w @ [spaces] @ lit (str ''*'')"

definition starPhrase :: "jsstring \<Rightarrow> piece list" where
  "starPhrase w =
     lit (str ''*'') @ [Piece (NotCh 42) 1 (Some 30)] @ lit w @ [Piece (NotCh 42) 0 None]
       @ lit (str ''*'')"

definition nonSpeechTagPatterns :: "piece list list" where
  "nonSpeechTagPatterns =
     [lit (str ''['') @ [Piece (NotCh 93) 1 (Some 50)] @ lit (str '']''),
      parenTag (str ''Musik''),
      parenTag (str ''Music''),
      parenTag (str ''Applaus''),
      parenTag (str ''Lachen''),
      parenTag (str ''Aufregung''),
      parenTag (str ''Schreien''),
      starTag (str ''Musik''),
      starTag (str ''Music''),
      starTag (str ''Applaus''),
      starTag (str ''Applause''),
      starTag (str ''Lachen''),
      starTag (str ''Laughter''),
      starTag (str ''Gel'' @ [228] @ str ''chter''),
      starTag (str ''Stille''),
      starTag (str ''Silence''),
      starTag (str ''R'' @ [228] @ str ''uspern''),
      starTag (str ''Husten''),
      starTag (str ''Seufzen''),
      starTag (str ''Aufregung''),
      starTag (str ''Schreien''),
      starPhrase (str ''Lachen''),
      starPhrase (str ''Musik''),
      starPhrase (str ''Ger'' @ [228] @ str ''usch'')]"

definition trim :: "jsstring \<Rightarrow> jsstring" where
  "trim s = rev (dropWhile isWhiteSpace (rev (dropWhile isWhiteSpace s)))"

definition stripTags :: "jsstring \<Rightarrow> jsstring" where
  "stripTags text = foldl (\<lambda>filtered pattern. replaceAll pattern [] filtered) text nonSpeechTagPatterns"

definition filterNonSpeechTags :: "jsstring \<Rightarrow> bool \<Rightarrow> jsstring" where
  "filterNonSpeechTags text preserveWhitespace =
     (let filtered = stripTags text
      in if preserveWhitespace then filtered
         else trim (replaceAll [Piece WS 1 None] (str '' '') filtered))"

text \<open>
  \<open>s.split(/\s+/)\<close>: the pieces between the maximal runs of white space; a string that
  starts or ends with white space yields an empty first or last piece, and the empty
  string yields one empty piece.
\<close>

function jsSplit :: "jsstring \<Rightarrow> jsstring list" where
  "jsSplit s =
     (let w = takeWhile (\<lambda>c. \<not> isWhiteSpace c) s;
          r = dropWhile (\<lambda>c. \<not> isWhiteSpace c) s
      in if r = [] then [w] else w # jsSplit (dropWhile isWhiteSpace r))"
  by pat_completeness auto
termination
proof (relation "measure length")
  fix s w r
  assume r: "r = dropWhile (\<lambda>c. \<not> isWhiteSpace c) s" and ne: "r \<noteq> []"
  from ne r have "isWhiteSpace (hd r)"
    using hd_dropWhile [of "\<lambda>c. \<not> isWhiteSpace c" s] by auto
  with ne have "length (dropWhile isWhiteSpace r) < length r"
    by (cases r) (auto simp: le_imp_less_Suc length_dropWhile_le)
  moreover have "length r \<le> length s"
    by (simp add: r length_dropWhile_le)
  ultimately show "(dropWhile isWhiteSpace r, s) \<in> measure length"
    by simp
qed simp

declare jsSplit.simps [simp del]

text \<open>\<open>/(.)\1{3,}/.test(s)\<close>: some character other than a line terminator, four times in a row.\<close>

fun hasRepeatedChars :: "jsstring \<Rightarrow> bool" where
  "hasRepeatedChars (a # b # c # d # rest) =
     ((\<not> isLineTerminator a \<and> a = b \<and> b = c \<and> c = d) \<or> hasRepeatedChars (b # c # d # rest))"
| "hasRepeatedChars _ = False"

text \<open>\<open>s.includes(sub)\<close>\<close>

fun jsIncludes :: "jsstring \<Rightarrow> jsstring \<Rightarrow> bool" where
  "jsIncludes [] sub = (sub = [])"
| "jsIncludes (c # cs) sub = (take (length sub) (c # cs) = sub \<or> jsIncludes cs sub)"

text \<open>
  The heuristic of \<open>processTranscriptionQueue\<close>. A string in a condition is false when it
  is empty, which is how \<open>textWithoutTags && ...\<close> and \<open>textWithoutTags ? ... : 0\<close> read.
\<close>

definition hasActualSpeech :: "jsstring \<Rightarrow> bool" where
  "hasActualSpeech textWithoutTags \<longleftrightarrow> textWithoutTags \<noteq> [] \<and> length textWithoutTags \<ge> 2"

definition wordCount :: "jsstring \<Rightarrow> nat" where
  "wordCount textWithoutTags =
     (if textWithoutTags \<noteq> [] then length (jsSplit textWithoutTags) else 0)"

definition workerIsUncertain :: "jsstring \<Rightarrow> rat \<Rightarrow> bool" where
  "workerIsUncertain segmentText audioDuration =
     (let textWithoutTags = filterNonSpeechTags segmentText False;
          hasRepeated = hasRepeatedChars textWithoutTags;
          hasEllipsis = jsIncludes textWithoutTags (str ''...'');
          tooFewWordsForDuration = (wordCount textWithoutTags \<le> 2 \<and> audioDuration > 3)
      in (hasActualSpeech textWithoutTags \<and> (tooFewWordsForDuration \<or> hasEllipsis \<or> hasRepeated))
         \<or> \<not> hasActualSpeech textWithoutTags)"


section \<open>Live mode: data\<close>

text \<open>
  A \<open>Blob\<close> is opaque to the pipeline except for its size; it is modelled as the list of
  the sizes of the recorder chunks it was assembled from.
\<close>

type_synonym blob = "nat list"

definition blobSize :: "blob \<Rightarrow> nat" where
  "blobSize b = sum_list b"

record queue_item =
  audioBlob :: blob
  segmentIndex :: nat
  startTime :: rat
  audioFilePath :: "jsstring option"

record transcript_segment =
  segId :: nat
  segText :: jsstring
  segStartTime :: rat
  segEndTime :: rat
  segAudioFile :: "jsstring option"
  segIsUncertain :: "bool option"

text \<open>
  The settings the pipeline reads, and whether the Electron bridge
  \<open>window.desktop.projects\<close> exists.
\<close>

record config =
  sttProvider :: jsstring
  whisperApiKey :: "jsstring option"
  liveIdleTime :: "int option"
  desktopProjects :: bool

text \<open>A call to a collaborator either throws (the message of the error) or returns.\<close>

datatype 'a outcome = Throws jsstring | Returns 'a

text \<open>
  The answer of \<open>fetch("/api/transcribe")\<close>: \<open>res.ok\<close> false with the \<open>error\<close> field of
  the body if any, or \<open>res.ok\<close> true with the \<open>transcript\<close> field if any.
\<close>

datatype api_response = NotOk "jsstring option" | Ok "jsstring option"

text \<open>
  What the collaborators answer for one queued blob: the decoded duration
  (\<open>getAudioDurationFromBlob\<close>), the transcription endpoint, the number of samples
  returned by \<open>convertAudioToFloat32\<close>, and the text of the local Whisper pipeline.
\<close>

record stt_reply =
  blobDuration :: "rat outcome"
  apiResponse :: "api_response outcome"
  samples :: "nat outcome"
  whisperText :: "jsstring outcome"

datatype item_result = Skipped | Failed jsstring | Completed transcript_segment

text \<open>\<open>x || d\<close> for an optional string: the default when absent or empty.\<close>

definition orElse :: "jsstring option \<Rightarrow> jsstring \<Rightarrow> jsstring" where
  "orElse x d = (case x of None \<Rightarrow> d | Some v \<Rightarrow> if v = [] then d else v)"

definition truthy :: "jsstring option \<Rightarrow> jsstring option" where
  "truthy x = (case x of None \<Rightarrow> None | Some v \<Rightarrow> if v = [] then None else Some v)"

definition missingKeyMessage :: jsstring where
  "missingKeyMessage =
     str ''OpenAI API Key f'' @ [252] @ str ''r Whisper fehlt. Bitte in Einstellungen ''
       @ [8594] @ str '' Spracherkennung eintragen.''"

text \<open>
  The part of one worker iteration behind \<open>shift()\<close>: the two transcription paths, the
  skip of an empty result, the heuristic and the new segment. \<open>Skipped\<close> is a silent
  \<open>continue\<close>, \<open>Failed\<close> a call of \<open>setError\<close> (by \<open>continue\<close> or in the \<open>catch\<close>).
\<close>

definition newSegment :: "queue_item \<Rightarrow> jsstring \<Rightarrow> rat \<Rightarrow> item_result" where
  "newSegment item segmentText audioDuration =
     (if segmentText = [] \<or> length segmentText < 2 then Skipped
      else Completed
        \<lparr>segId = segmentIndex item,
         segText = segmentText,
         segStartTime = startTime item,
         segEndTime = startTime item + audioDuration,
         segAudioFile = truthy (audioFilePath item),
         segIsUncertain = Some (workerIsUncertain segmentText audioDuration)\<rparr>)"

definition transcribeItem :: "config \<Rightarrow> stt_reply \<Rightarrow> queue_item \<Rightarrow> item_result" where
  "transcribeItem cfg reply item =
     (if sttProvider cfg = str ''whisper-api'' then
        (case blobDuration reply of
           Throws m \<Rightarrow> Failed m
         | Returns audioDuration \<Rightarrow>
             if audioDuration < 1 / 2 then Skipped
             else (case truthy (map_option trim (whisperApiKey cfg)) of
                     None \<Rightarrow> Failed missingKeyMessage
                   | Some wk \<Rightarrow>
                       (case apiResponse reply of
                          Throws m \<Rightarrow> Failed m
                        | Returns (NotOk e) \<Rightarrow> Failed (orElse e (str ''Whisper-API-Fehler''))
                        | Returns (Ok t) \<Rightarrow> newSegment item (trim (orElse t [])) audioDuration)))
      else
        (case samples reply of
           Throws m \<Rightarrow> Failed m
         | Returns n \<Rightarrow>
             if n < 8000 then Skipped
             else (case whisperText reply of
                     Throws m \<Rightarrow> Failed m
                   | Returns t \<Rightarrow> newSegment item (trim t) (of_nat n / 16000))))"

text \<open>\<open>String(n)\<close> for a non-negative integer, and \<open>padStart(4, "0")\<close>.\<close>

function decimal :: "nat \<Rightarrow> jsstring" where
  "decimal n = (if n < 10 then [48 + n] else decimal (n div 10) @ [48 + n mod 10])"
  by pat_completeness auto
termination
  by (relation "measure (\<lambda>n. n)") auto

declare decimal.simps [simp del]

definition padStart4 :: "jsstring \<Rightarrow> jsstring" where
  "padStart4 s = replicate (4 - length s) 48 @ s"

definition audioFileOf :: "transcript_segment \<Rightarrow> jsstring" where
  "audioFileOf seg =
     orElse (segAudioFile seg)
       (str ''audio/segment_'' @ padStart4 (decimal (segId seg)) @ str ''.webm'')"


section \<open>The tooltip of an uncertain segment\<close>

text \<open>
  \<open>getUncertainTooltip\<close> recomputes the heuristic from the stored segment and joins the
  sentences of the reasons it finds. The German sentences are represented by the
  constructors of \<open>reason\<close>; \<open>Generic\<close> is the text returned for a segment that is not
  marked, \<open>PleaseCheck\<close> the text returned when no reason is found. On numbers \<open>x || 0\<close> is
  \<open>x\<close>.
\<close>

datatype reason = NoSpeechContent | FewWordsForDuration | EllipsisInText | RepeatedCharacters

datatype tooltip = Generic | Explained "reason list" | PleaseCheck

definition tooltipReasons :: "transcript_segment \<Rightarrow> reason list" where
  "tooltipReasons segment =
     (let without = filterNonSpeechTags (segText segment) False;
          wordCount = (if without \<noteq> [] then length (filter (\<lambda>w. w \<noteq> []) (jsSplit without)) else 0);
          duration = max 0 (segEndTime segment - segStartTime segment);
          hasRepeated = hasRepeatedChars without;
          hasEllipsis = jsIncludes without (str ''...'');
          tooFewWordsForDuration = (wordCount \<le> 2 \<and> duration > 3)
      in if \<not> hasActualSpeech without then [NoSpeechContent]
         else (if tooFewWordsForDuration then [FewWordsForDuration] else [])
            @ (if hasEllipsis then [EllipsisInText] else [])
            @ (if hasRepeated then [RepeatedCharacters] else []))"

definition getUncertainTooltip :: "transcript_segment \<Rightarrow> tooltip" where
  "getUncertainTooltip segment =
     (if segIsUncertain segment \<noteq> Some True then Generic
      else (let reasons = tooltipReasons segment
            in if reasons \<noteq> [] then Explained reasons else PleaseCheck))"

section \<open>Live mode: state and suspended calls\<close>

datatype recorder_state = Inactive | Recording

text \<open>
  \<open>processLiveSegment\<close> is an async function with two suspension points: the \<open>stop\<close>
  event of the recorder and the return of \<open>saveAudioToProject\<close>. A suspended call is a
  frame holding its local variables; \<open>awaited\<close> says that \<open>stopLiveMode\<close> waits for the
  call. The processing lock admits one call at the first point; the lock is released
  before the second, so several calls can be suspended there.
\<close>

record seal_frame =
  sealStartTime :: rat
  sealChunks :: "nat list"
  sealAwaited :: bool

record save_frame =
  saveBlob :: blob
  saveIndex :: nat
  saveStartTime :: rat
  saveProject :: jsstring
  saveAwaited :: bool

text \<open>
  Where the stop sequence (\<open>toggleLiveMode\<close> and \<open>stopLiveMode\<close>) is suspended while
  the button is disabled: at its \<open>setTimeout(..., 0)\<close>, in the 100 ms wait loop with the
  value of \<open>waitCount\<close>, at \<open>await processLiveSegment()\<close>, or in the 500 ms loop of
  \<open>checkQueue\<close>. Behind that loop the button is enabled again and the sequence is left
  with its 100 ms delay and the final save; such a rest is kept in \<open>finalDelays\<close>.
\<close>

datatype stop_pc =
    NotStopping
  | StopScheduled
  | WaitingForSeal nat
  | AwaitingFinalSeal
  | Draining

datatype project_save =
    SaveSegments "transcript_segment list"
  | SaveRawTranscript jsstring
  | SaveAudioFiles "jsstring list"

record live =
  liveModeActive :: bool
  liveAnimation :: bool
  framePending :: bool
  silenceStart :: "int option"
  isProcessingSegment :: bool
  mediaRecorder :: "recorder_state option"
  recordingStream :: bool
  audioContext :: bool
  liveAnalyser :: bool
  audioChunks :: "nat list"
  recordingStartTime :: int
  silenceDuration :: int
  liveAudioBlobs :: "(blob \<times> rat) list"
  transcriptionQueue :: "queue_item list"
  isTranscribing :: bool
  isProcessingAfterLiveStop :: bool
  currentProject :: "jsstring option"
  liveMode :: bool
  silenceCountdown :: "int option"
  segments :: "transcript_segment list"
  transcript :: jsstring
  errors :: "jsstring list"
  sealFrame :: "seal_frame option"
  saveFrames :: "save_frame list"
  workerTimers :: nat
  stopPc :: stop_pc
  stopSegments :: "transcript_segment list"
  finalDelays :: "transcript_segment list list"
  savedAudio :: "(jsstring \<times> nat \<times> blob) list"
  projectSaves :: "(jsstring \<times> project_save) list"

text \<open>
  The fields up to \<open>currentProject\<close> are the refs of the component, the next five its React
  state (\<open>errors\<close> lists every message passed to \<open>setError\<close>). \<open>liveAnimation\<close> says that
  \<open>liveAnimationRef\<close> holds a handle, \<open>framePending\<close> that the browser still has a frame
  callback to run. \<open>silenceDuration\<close> is the constant of that name in the closure of
  \<open>startLiveMode\<close>, \<open>stopSegments\<close> the value of \<open>segments\<close> in the closure of the
  \<open>toggleLiveMode\<close> that was clicked; \<open>finalDelays\<close> holds that value for every stop
  sequence waiting in its last 100 ms delay, oldest first. \<open>savedAudio\<close> and
  \<open>projectSaves\<close> list what the persistence collaborator received (project id first), in
  the order of the calls.
\<close>

definition projectId :: "live \<Rightarrow> jsstring option" where
  "projectId s = truthy (currentProject s)"

definition silenceThreshold :: rat where
  "silenceThreshold = 15"

definition minChunksForSegment :: nat where
  "minChunksForSegment = 15"

text \<open>
  \<open>dataArray.reduce((a, b) => a + b, 0) / dataArray.length\<close>; the array has
  \<open>frequencyBinCount\<close> entries. For an empty array the quotient would be NaN, which is
  below nothing.
\<close>

definition average :: "nat list \<Rightarrow> rat" where
  "average dataArray = of_nat (sum_list dataArray) / of_nat (length dataArray)"

definition belowSilenceThreshold :: "nat list \<Rightarrow> bool" where
  "belowSilenceThreshold dataArray \<longleftrightarrow> dataArray \<noteq> [] \<and> average dataArray < silenceThreshold"


section \<open>The stop sequence behind its awaits\<close>

text \<open>
  The end of the wait for the queue: \<open>setIsProcessingAfterLiveStop(false)\<close>, then the
  100 ms delay.
\<close>

definition stopDrained :: "live \<Rightarrow> live" where
  "stopDrained s =
     s\<lparr>isProcessingAfterLiveStop := False,
       stopPc := NotStopping,
       finalDelays := finalDelays s @ [stopSegments s]\<rparr>"

text \<open>
  The end of \<open>stopLiveMode\<close> (stream, audio context, analyser, silence timer) and the
  callback of \<open>toggleLiveMode\<close> behind it: if the queue is not empty or the worker runs,
  the first check of \<open>checkQueue\<close> fails and the 500 ms timer is set.
\<close>

definition stopRelease :: "live \<Rightarrow> live" where
  "stopRelease s =
     (let s1 = s\<lparr>recordingStream := False,
                 audioContext := False,
                 liveAnalyser := False,
                 silenceStart := None\<rparr>
      in if length (transcriptionQueue s1) > 0 \<or> isTranscribing s1
         then s1\<lparr>stopPc := Draining\<rparr>
         else stopDrained s1)"

text \<open>One run of \<open>check\<close> from its 500 ms timer.\<close>

definition drainCheck :: "live \<Rightarrow> live" where
  "drainCheck s =
     (if length (transcriptionQueue s) = 0 \<and> \<not> isTranscribing s then stopDrained s
      else s)"

text \<open>
  The rest of the callback behind the 100 ms delay. \<open>closureSegments\<close> is the value of
  \<open>segments\<close> in the closure of the \<open>toggleLiveMode\<close> that was clicked.
  \<open>saveCurrentProject\<close> returns without saving when the Electron bridge is absent.
\<close>

definition finalSave :: "config \<Rightarrow> transcript_segment list \<Rightarrow> live \<Rightarrow> live" where
  "finalSave cfg closureSegments s =
     (case projectId s of
        None \<Rightarrow> s
      | Some finalProjectId \<Rightarrow>
          (let audioFiles = map audioFileOf closureSegments
           in if desktopProjects cfg
              then s\<lparr>projectSaves := projectSaves s @ [(finalProjectId, SaveAudioFiles audioFiles)]\<rparr>
              else s))"

section \<open>processLiveSegment\<close>

text \<open>A call that \<open>stopLiveMode\<close> awaits resumes \<open>stopLiveMode\<close> when it returns.\<close>

definition finishSeal :: "bool \<Rightarrow> live \<Rightarrow> live" where
  "finishSeal awaited s =
     (if awaited \<and> stopPc s = AwaitingFinalSeal then stopRelease s else s)"

text \<open>
  The tail of \<open>processLiveSegment\<close>: the blob is stored, the item is queued, and the
  worker is started by a 50 ms timer unless it runs.
\<close>

definition enqueueSegment ::
  "blob \<Rightarrow> nat \<Rightarrow> rat \<Rightarrow> jsstring option \<Rightarrow> bool \<Rightarrow> live \<Rightarrow> live" where
  "enqueueSegment blob index segmentStartTime path awaited s =
     (let s1 = s\<lparr>liveAudioBlobs := liveAudioBlobs s @ [(blob, segmentStartTime)],
                 transcriptionQueue := transcriptionQueue s
                   @ [\<lparr>audioBlob = blob, segmentIndex = index,
                       startTime = segmentStartTime, audioFilePath = path\<rparr>]\<rparr>;
          s2 = (if \<not> isTranscribing s1 then s1\<lparr>workerTimers := workerTimers s1 + 1\<rparr> else s1)
      in finishSeal awaited s2)"

text \<open>
  The synchronous head of \<open>processLiveSegment\<close>, up to \<open>recorder.stop()\<close>. \<open>stop()\<close> on
  a recorder that is inactive does nothing: no \<open>stop\<close> event follows, and the call stays
  suspended with the lock held.
\<close>

definition processLiveSegment :: "int \<Rightarrow> bool \<Rightarrow> live \<Rightarrow> live" where
  "processLiveSegment now awaited s =
     (if isProcessingSegment s then s
      else if mediaRecorder s = None \<or> \<not> recordingStream s then s
      else if mediaRecorder s = Some Recording then
        s\<lparr>isProcessingSegment := True,
          mediaRecorder := Some Inactive,
          sealFrame := Some \<lparr>sealStartTime = of_int (now - recordingStartTime s) / 1000,
                             sealChunks = audioChunks s,
                             sealAwaited = awaited\<rparr>\<rparr>
      else s\<lparr>isProcessingSegment := True\<rparr>)"

text \<open>
  The \<open>stop\<close> event: the blob is built, the chunks are reset, the recorder is restarted
  in live mode, the lock is released; a blob under 1000 bytes ends the call. Without the
  Electron bridge \<open>saveAudioToProject\<close> returns \<open>null\<close> at once.
\<close>

definition processLiveSegment_onstop :: "config \<Rightarrow> live \<Rightarrow> live" where
  "processLiveSegment_onstop cfg s =
     (case sealFrame s of
        None \<Rightarrow> s
      | Some f \<Rightarrow>
          (let allChunks = sealChunks f @ drop (length (sealChunks f)) (audioChunks s);
               audioBlob = allChunks;
               s1 = s\<lparr>audioChunks := [], sealFrame := None\<rparr>;
               s2 = (if liveModeActive s1 \<and> recordingStream s1
                     then s1\<lparr>mediaRecorder := Some Recording\<rparr> else s1);
               s3 = s2\<lparr>isProcessingSegment := False\<rparr>
           in if blobSize audioBlob < 1000 then finishSeal (sealAwaited f) s3
              else
                (let segmentIndex = length (liveAudioBlobs s3)
                 in case projectId s3 of
                      None \<Rightarrow>
                        enqueueSegment audioBlob segmentIndex (sealStartTime f) None (sealAwaited f) s3
                    | Some pid \<Rightarrow>
                        if \<not> desktopProjects cfg then
                          enqueueSegment audioBlob segmentIndex (sealStartTime f) None (sealAwaited f) s3
                        else
                          s3\<lparr>saveFrames := saveFrames s3
                               @ [\<lparr>saveBlob = audioBlob, saveIndex = segmentIndex,
                                   saveStartTime = sealStartTime f, saveProject = pid,
                                   saveAwaited = sealAwaited f\<rparr>]\<rparr>)))"

text \<open>The return of the \<open>k\<close>-th pending \<open>saveAudioToProject\<close>, with the file path or \<open>null\<close>.\<close>

definition processLiveSegment_saved :: "nat \<Rightarrow> jsstring option \<Rightarrow> live \<Rightarrow> live" where
  "processLiveSegment_saved k path s =
     (if k < length (saveFrames s) then
        (let f = saveFrames s ! k;
             s1 = s\<lparr>saveFrames := take k (saveFrames s) @ drop (Suc k) (saveFrames s),
                     savedAudio := (if path \<noteq> None
                                    then savedAudio s @ [(saveProject f, saveIndex f, saveBlob f)]
                                    else savedAudio s)\<rparr>
         in enqueueSegment (saveBlob f) (saveIndex f) (saveStartTime f) path (saveAwaited f) s1)
      else s)"

section \<open>The voice activity loop\<close>

definition checkVoiceActivity :: "int \<Rightarrow> nat list \<Rightarrow> live \<Rightarrow> live" where
  "checkVoiceActivity now dataArray s =
     (if \<not> liveModeActive s then s\<lparr>silenceCountdown := None\<rparr>
      else
        (let s1 =
           (if belowSilenceThreshold dataArray then
              (if length (audioChunks s) \<ge> minChunksForSegment then
                 (case silenceStart s of
                    None \<Rightarrow> s\<lparr>silenceStart := Some now\<rparr>
                  | Some t0 \<Rightarrow>
                      (let silenceTime = now - t0;
                           remaining = max 0 (silenceDuration s - silenceTime);
                           s' = s\<lparr>silenceCountdown := Some remaining\<rparr>
                       in if silenceTime > silenceDuration s \<and> \<not> isProcessingSegment s'
                          then processLiveSegment now False
                                 (s'\<lparr>silenceStart := None, silenceCountdown := None\<rparr>)
                          else s'))
               else s\<lparr>silenceStart := None, silenceCountdown := None\<rparr>)
            else s\<lparr>silenceStart := None, silenceCountdown := None\<rparr>)
         in if liveModeActive s1 then s1\<lparr>liveAnimation := True, framePending := True\<rparr> else s1))"

section \<open>The transcription worker\<close>

text \<open>The entry of \<open>processTranscriptionQueue\<close>, before its loop.\<close>

definition processTranscriptionQueue :: "live \<Rightarrow> live" where
  "processTranscriptionQueue s =
     (if isTranscribing s then s
      else if length (transcriptionQueue s) = 0 then s
      else s\<lparr>isTranscribing := True\<rparr>)"

text \<open>The loop test, and the end of the function when it fails.\<close>

definition loopTest :: "live \<Rightarrow> live" where
  "loopTest s = (if length (transcriptionQueue s) > 0 then s else s\<lparr>isTranscribing := False\<rparr>)"

definition appendSegment :: "config \<Rightarrow> transcript_segment \<Rightarrow> live \<Rightarrow> live" where
  "appendSegment cfg newSeg s =
     (let updated = segments s @ [newSeg];
          textToAdd = (if segIsUncertain newSeg = Some True
                       then [10067, 171] @ segText newSeg @ [187] else segText newSeg);
          newText = (if transcript s \<noteq> [] then transcript s @ str '' '' @ textToAdd
                     else textToAdd);
          saves = (case projectId s of
                     None \<Rightarrow> []
                   | Some pid \<Rightarrow>
                       if desktopProjects cfg
                       then [(pid, SaveSegments updated), (pid, SaveRawTranscript newText)]
                       else [])
      in s\<lparr>segments := updated, transcript := newText,
           projectSaves := projectSaves s @ saves\<rparr>)"

text \<open>
  One iteration of the loop, from the end of its first pause: \<open>shift()\<close>, the
  transcription, and what follows. After \<open>continue\<close> and after the \<open>catch\<close> the loop
  test comes at once; after a completed segment the worker pauses again, and the test
  opens the next step.
\<close>

definition workerIteration :: "config \<Rightarrow> stt_reply \<Rightarrow> live \<Rightarrow> live" where
  "workerIteration cfg reply s =
     (if \<not> isTranscribing s then s
      else
        (case transcriptionQueue s of
           [] \<Rightarrow> s\<lparr>isTranscribing := False\<rparr>
         | item # rest \<Rightarrow>
             (let s1 = s\<lparr>transcriptionQueue := rest\<rparr>
              in case transcribeItem cfg reply item of
                   Skipped \<Rightarrow> loopTest s1
                 | Failed message \<Rightarrow> loopTest (s1\<lparr>errors := errors s1 @ [message]\<rparr>)
                 | Completed newSeg \<Rightarrow> appendSegment cfg newSeg s1)))"

section \<open>stopLiveMode and toggleLiveMode\<close>

text \<open>
  The forced last seal: \<open>processLiveSegment\<close> is called if the recorder is not inactive,
  and awaited. The call suspends if it passes its own guards; otherwise it has returned
  and \<open>stopLiveMode\<close> goes on.
\<close>

definition stopFinalSeal :: "int \<Rightarrow> live \<Rightarrow> live" where
  "stopFinalSeal now s =
     (if mediaRecorder s = Some Recording then
        (let s1 = processLiveSegment now True s
         in if \<not> isProcessingSegment s \<and> recordingStream s
            then s1\<lparr>stopPc := AwaitingFinalSeal\<rparr>
            else stopRelease s1)
      else stopRelease s)"

text \<open>\<open>stopLiveMode\<close> up to its first await.\<close>

definition stopLiveMode :: "int \<Rightarrow> live \<Rightarrow> live" where
  "stopLiveMode now s =
     (let s1 = s\<lparr>liveModeActive := False\<rparr>;
          s2 = (if liveAnimation s1
                then s1\<lparr>framePending := False, liveAnimation := False\<rparr>
                else s1)
      in if isProcessingSegment s2
         then s2\<lparr>stopPc := WaitingForSeal 0\<rparr>
         else stopFinalSeal now s2)"

text \<open>The end of one 100 ms wait: \<open>waitCount++\<close> and the loop test.\<close>

definition stopWait :: "int \<Rightarrow> nat \<Rightarrow> live \<Rightarrow> live" where
  "stopWait now n s =
     (let waitCount = n + 1
      in if isProcessingSegment s \<and> waitCount < 50
         then s\<lparr>stopPc := WaitingForSeal waitCount\<rparr>
         else stopFinalSeal now s)"

text \<open>
  The branch of \<open>toggleLiveMode\<close> taken in live mode: the state updates, then
  \<open>stopLiveMode\<close> and its callback behind \<open>setTimeout(..., 0)\<close>. The callback closes over
  the \<open>segments\<close> of the render in which the button was clicked.
\<close>

definition toggleLiveMode_stop :: "live \<Rightarrow> live" where
  "toggleLiveMode_stop s =
     s\<lparr>liveMode := False,
       silenceCountdown := None,
       isProcessingAfterLiveStop := True,
       stopPc := StopScheduled,
       stopSegments := segments s\<rparr>"

text \<open>
  The other branch, with \<open>startLiveMode\<close>: \<open>created\<close> is the id of the project that
  \<open>createProject\<close> made, if it made one. The microphone is taken to be granted.
\<close>

definition toggleLiveMode_start :: "config \<Rightarrow> int \<Rightarrow> jsstring option \<Rightarrow> live \<Rightarrow> live" where
  "toggleLiveMode_start cfg now created s =
     (let isContinuing = (currentProject s \<noteq> None \<and> length (segments s) > 0);
          s1 = (if \<not> isContinuing then s\<lparr>transcript := []\<rparr> else s);
          s2 = s1\<lparr>transcriptionQueue := [], liveModeActive := True\<rparr>;
          s3 = (if isContinuing
                then s2\<lparr>liveAudioBlobs := map (\<lambda>seg. ([], 0)) (segments s2)\<rparr>
                else s2\<lparr>currentProject := (case created of
                                              None \<Rightarrow> currentProject s2
                                            | Some p \<Rightarrow> Some p),
                        liveAudioBlobs := [],
                        segments := []\<rparr>)
      in s3\<lparr>recordingStartTime := now,
            recordingStream := True,
            audioContext := True,
            liveAnalyser := True,
            mediaRecorder := Some Recording,
            audioChunks := [],
            silenceDuration := (case liveIdleTime cfg of
                                  None \<Rightarrow> 3000
                                | Some v \<Rightarrow> if v = 0 then 3000 else v),
            liveAnimation := True,
            framePending := True,
            liveMode := True\<rparr>)"

definition toggleLiveMode :: "config \<Rightarrow> int \<Rightarrow> jsstring option \<Rightarrow> live \<Rightarrow> live" where
  "toggleLiveMode cfg now created s =
     (if liveMode s then toggleLiveMode_stop s else toggleLiveMode_start cfg now created s)"

text \<open>
  The \<open>disabled\<close> attribute of the live button,
  \<open>(listening && !liveMode) || isProcessingAfterLiveStop\<close>. The first disjunct holds
  while the plain recorder of the component runs, which is outside the model: in live
  mode \<open>listening\<close> and \<open>liveMode\<close> are set together.
\<close>

definition liveButtonDisabled :: "live \<Rightarrow> bool" where
  "liveButtonDisabled s \<longleftrightarrow> isProcessingAfterLiveStop s"

section \<open>Events\<close>

text \<open>
  The page runs one task at a time. Each event is one task: a frame callback (with the
  value of \<open>Date.now()\<close> and the frequency data), a chunk of the recorder (with its
  size), the \<open>stop\<close> event of the recorder, the return of a pending save, a timer, an
  iteration of the worker (with the answers of the collaborators), or a click on the live
  button (with the value of \<open>Date.now()\<close> and the project that \<open>createProject\<close> would make,
  which only the start of a session reads). A click on the disabled button does nothing.
  Timers of equal delay fire in the order in which they were set.
\<close>

datatype event =
    AnimationFrame int "nat list"
  | DataAvailable nat
  | RecorderStopped
  | AudioSaved nat "jsstring option"
  | WorkerTimer
  | WorkerIteration stt_reply
  | LiveButtonClicked int "jsstring option"
  | StopTimer int
  | StopWaitTimer int
  | DrainTimer
  | FinalDelayTimer

definition dataAvailable :: "nat \<Rightarrow> live \<Rightarrow> live" where
  "dataAvailable dataSize s =
     (if (mediaRecorder s = Some Recording \<or> sealFrame s \<noteq> None) \<and> dataSize > 0
      then s\<lparr>audioChunks := audioChunks s @ [dataSize]\<rparr> else s)"

fun step :: "config \<Rightarrow> event \<Rightarrow> live \<Rightarrow> live" where
  "step cfg (AnimationFrame now dataArray) s =
     (if framePending s then checkVoiceActivity now dataArray (s\<lparr>framePending := False\<rparr>) else s)"
| "step cfg (DataAvailable dataSize) s = dataAvailable dataSize s"
| "step cfg RecorderStopped s = processLiveSegment_onstop cfg s"
| "step cfg (AudioSaved k path) s = processLiveSegment_saved k path s"
| "step cfg WorkerTimer s =
     (if workerTimers s > 0 then processTranscriptionQueue (s\<lparr>workerTimers := workerTimers s - 1\<rparr>)
      else s)"
| "step cfg (WorkerIteration reply) s = workerIteration cfg reply s"
| "step cfg (LiveButtonClicked now created) s =
     (if liveButtonDisabled s then s else toggleLiveMode cfg now created s)"
| "step cfg (StopTimer now) s = (if stopPc s = StopScheduled then stopLiveMode now s else s)"
| "step cfg (StopWaitTimer now) s =
     (case stopPc s of WaitingForSeal n \<Rightarrow> stopWait now n s | _ \<Rightarrow> s)"
| "step cfg DrainTimer s = (if stopPc s = Draining then drainCheck s else s)"
| "step cfg FinalDelayTimer s =
     (case finalDelays s of
        [] \<Rightarrow> s
      | closureSegments # rest \<Rightarrow> finalSave cfg closureSegments (s\<lparr>finalDelays := rest\<rparr>))"

definition run :: "config \<Rightarrow> event list \<Rightarrow> live \<Rightarrow> live" where
  "run cfg es s = foldl (\<lambda>s e. step cfg e s) s es"

text \<open>The component as mounted: every ref and state at its initial value.\<close>

definition initial :: live where
  "initial =
     \<lparr>liveModeActive = False, liveAnimation = False, framePending = False,
      silenceStart = None, isProcessingSegment = False, mediaRecorder = None,
      recordingStream = False, audioContext = False, liveAnalyser = False,
      audioChunks = [], recordingStartTime = 0, silenceDuration = 3000,
      liveAudioBlobs = [], transcriptionQueue = [], isTranscribing = False,
      isProcessingAfterLiveStop = False, currentProject = None, liveMode = False,
      silenceCountdown = None, segments = [], transcript = [], errors = [],
      sealFrame = None, saveFrames = [], workerTimers = 0, stopPc = NotStopping,
      stopSegments = [], finalDelays = [], savedAudio = [], projectSaves = []\<rparr>"


section \<open>Vocabulary of the properties\<close>

text \<open>A frame whose loudness is under the silence threshold, and a chunk of the recorder.\<close>

fun subThresholdTick :: "event \<Rightarrow> bool" where
  "subThresholdTick (AnimationFrame now dataArray) = belowSilenceThreshold dataArray"
| "subThresholdTick _ = False"

fun isChunk :: "event \<Rightarrow> bool" where
  "isChunk (DataAvailable n) = True"
| "isChunk _ = False"

text \<open>
  Two configurations: the local Whisper pipeline in the browser (no Electron bridge), and
  the same in the desktop application. Neither sets an idle time.
\<close>

definition browserConfig :: config where
  "browserConfig =
     \<lparr>sttProvider = str ''whisper-local'', whisperApiKey = None, liveIdleTime = None,
      desktopProjects = False\<rparr>"

definition desktopConfig :: config where
  "desktopConfig =
     \<lparr>sttProvider = str ''whisper-local'', whisperApiKey = None, liveIdleTime = None,
      desktopProjects = True\<rparr>"

text \<open>
  The number of words of a text, as the specification counts them: the maximal runs of
  characters that are not white space. \<open>wordStarts\<close> counts the positions where such a run
  begins.
\<close>

primrec wordStarts :: "bool \<Rightarrow> jsstring \<Rightarrow> nat" where
  "wordStarts prevIsSpace [] = 0"
| "wordStarts prevIsSpace (c # cs) =
     (if \<not> isWhiteSpace c \<and> prevIsSpace then 1 else 0) + wordStarts (isWhiteSpace c) cs"

definition countWords :: "jsstring \<Rightarrow> nat" where
  "countWords s = wordStarts True s"

text \<open>The sentence of the specification's second example (a-umlaut is 228, o-umlaut 246).\<close>

definition klarerSatz :: jsstring where
  "klarerSatz = str ''Das ist ein vollst'' @ [228] @ str ''ndiger, klarer Satz mit genug W''
     @ [246] @ str ''rtern.''"

text \<open>
  The worker seen from its queue: an item is pushed by the tail of \<open>processLiveSegment\<close>,
  the 50 ms timer calls \<open>processTranscriptionQueue\<close>, the worker runs one iteration. How
  these interleave is what the latency of the transcriptions decides.
\<close>

datatype worker_event = Push queue_item | Timer | Iterate stt_reply

fun workerStep :: "config \<Rightarrow> worker_event \<Rightarrow> live \<Rightarrow> live" where
  "workerStep cfg (Push item) s =
     enqueueSegment (audioBlob item) (segmentIndex item) (startTime item) (audioFilePath item)
       False s"
| "workerStep cfg Timer s = step cfg WorkerTimer s"
| "workerStep cfg (Iterate reply) s = step cfg (WorkerIteration reply) s"

definition workerRun :: "config \<Rightarrow> worker_event list \<Rightarrow> live \<Rightarrow> live" where
  "workerRun cfg wes s = foldl (\<lambda>s e. workerStep cfg e s) s wes"

fun pushed :: "worker_event list \<Rightarrow> queue_item list" where
  "pushed [] = []"
| "pushed (Push item # wes) = item # pushed wes"
| "pushed (Timer # wes) = pushed wes"
| "pushed (Iterate reply # wes) = pushed wes"

text \<open>What identifies a queued item in the segment made from it.\<close>

definition itemKey :: "queue_item \<Rightarrow> nat \<times> rat \<times> jsstring option" where
  "itemKey item = (segmentIndex item, startTime item, truthy (audioFilePath item))"

definition segKey :: "transcript_segment \<Rightarrow> nat \<times> rat \<times> jsstring option" where
  "segKey seg = (segId seg, segStartTime seg, segAudioFile seg)"

text \<open>
  For the scenarios: a queued item with a given index, the answers of collaborators that
  hear a given text in four seconds of audio, and the answers of collaborators whose
  transcription throws.
\<close>

definition queuedItem :: "nat \<Rightarrow> queue_item" where
  "queuedItem i =
     \<lparr>audioBlob = [1200], segmentIndex = i, startTime = of_nat (5 * (i + 1)),
      audioFilePath = None\<rparr>"

definition heard :: "jsstring \<Rightarrow> stt_reply" where
  "heard t =
     \<lparr>blobDuration = Returns 4, apiResponse = Returns (Ok (Some t)), samples = Returns 64000,
      whisperText = Returns t\<rparr>"

definition failing :: "jsstring \<Rightarrow> stt_reply" where
  "failing m =
     \<lparr>blobDuration = Returns 4, apiResponse = Throws m, samples = Returns 64000,
      whisperText = Throws m\<rparr>"

text \<open>
  Schedules for the scenarios. \<open>ticks\<close> gives, for each time of a list (milliseconds after
  \<open>t0\<close>), a chunk of the recorder followed by a frame with the given frequency data. The
  frequency data has 256 bins; at level 40 it is above the silence threshold, at level 3
  below.
\<close>

definition loudData :: "nat list" where
  "loudData = replicate 256 40"

definition silentData :: "nat list" where
  "silentData = replicate 256 3"

definition ticks :: "int \<Rightarrow> nat \<Rightarrow> nat list \<Rightarrow> int list \<Rightarrow> event list" where
  "ticks t0 chunk dataArray ts =
     concat (map (\<lambda>t. [DataAvailable chunk, AnimationFrame (t0 + t) dataArray]) ts)"

text \<open>
  Two seconds of loud audio, then silence: a tick every 100 ms up to the chunk at 5200 ms,
  just before the frame at 5200 ms.
\<close>

definition speech :: "int \<Rightarrow> event list" where
  "speech t0 =
     ticks t0 1600 loudData
       [100, 200, 300, 400, 500, 600, 700, 800, 900, 1000, 1100, 1200, 1300, 1400,
        1500, 1600, 1700, 1800, 1900, 2000]
     @ ticks t0 400 silentData
         [2100, 2200, 2300, 2400, 2500, 2600, 2700, 2800, 2900, 3000, 3100, 3200,
          3300, 3400, 3500, 3600, 3700, 3800, 3900, 4000, 4100, 4200, 4300, 4400,
          4500, 4600, 4700, 4800, 4900, 5000, 5100]
     @ [DataAvailable 400]"

text \<open>
  The end-to-end scenario in the browser: the session starts at \<open>t0\<close>, two seconds of
  loud audio, 3.5 seconds of silence. The recorder delivers a last chunk of 100 bytes when
  it is stopped.
\<close>

definition untilIdle :: "int \<Rightarrow> event list" where
  "untilIdle t0 = LiveButtonClicked t0 (Some (str ''browser_1'')) # speech t0"

definition endToEnd :: "int \<Rightarrow> event list" where
  "endToEnd t0 =
     untilIdle t0
     @ [AnimationFrame (t0 + 5200) silentData, DataAvailable 100, RecorderStopped]
     @ ticks t0 400 silentData [5300, 5400, 5500]"

text \<open>
  A project recorded in two sessions in the desktop application. First session: the
  segment sealed at the pause is saved and queued, and its transcription fails; the user
  speaks on and stops, the forced last seal is saved, queued and transcribed, the queue
  drains and the stop sequence ends. Second session, a minute later: the user continues
  the project, speaks and stops.
\<close>

definition firstSession :: "event list" where
  "firstSession =
     [LiveButtonClicked 0 (Some (str ''p1''))] @ speech 0
     @ [AnimationFrame 5200 silentData, DataAvailable 100, RecorderStopped,
        AudioSaved 0 (Some (str ''audio/segment_0000.webm'')),
        WorkerTimer, WorkerIteration (failing (str ''Failed to fetch''))]
     @ ticks 0 1600 loudData [5300, 5400, 5500]
     @ [LiveButtonClicked 5550 None, StopTimer 5600, DataAvailable 100, RecorderStopped,
        AudioSaved 0 (Some (str ''audio/segment_0001.webm'')),
        WorkerTimer, WorkerIteration (heard (str ''zweiter Teil'')), WorkerIteration (heard []),
        DrainTimer, FinalDelayTimer]"

definition secondSession :: "event list" where
  "secondSession =
     [LiveButtonClicked 60000 None] @ ticks 60000 1600 loudData [100, 200, 300]
     @ [LiveButtonClicked 60350 None, StopTimer 60400, DataAvailable 100, RecorderStopped,
        AudioSaved 0 (Some (str ''audio/segment_0001.webm'')),
        WorkerTimer, WorkerIteration (heard (str ''dritter Teil'')), WorkerIteration (heard []),
        DrainTimer, FinalDelayTimer]"

text \<open>
  One session in the desktop application: the user starts a new project, speaks for 0.3
  seconds and stops at 350 ms. The forced last seal is saved, queued and transcribed; the
  queue drains and the stop sequence ends.
\<close>

definition desktopSession :: "event list" where
  "desktopSession =
     [LiveButtonClicked 0 (Some (str ''p1''))] @ ticks 0 1600 loudData [100, 200, 300]
     @ [LiveButtonClicked 350 None, StopTimer 400, DataAvailable 100, RecorderStopped,
        AudioSaved 0 (Some (str ''audio/segment_0000.webm'')),
        WorkerTimer, WorkerIteration (heard (str ''erster Teil'')), DrainTimer,
        WorkerIteration (heard []), DrainTimer, FinalDelayTimer]"

text \<open>
  A stop right after a pause, in the desktop application: the segment sealed by the
  pause is still being saved when the user stops at 5250 ms. The recorder, restarted
  50 ms before, gives 100 bytes to the forced last seal. The save of the first
  segment returns after the stop sequence has ended.
\<close>

definition stopBeforeSaved :: "event list" where
  "stopBeforeSaved =
     [LiveButtonClicked 0 (Some (str ''p1''))] @ speech 0
     @ [AnimationFrame 5200 silentData, DataAvailable 100, RecorderStopped,
        LiveButtonClicked 5250 None, StopTimer 5260, DataAvailable 100, RecorderStopped,
        FinalDelayTimer]"

definition savedAfterStop :: "event list" where
  "savedAfterStop =
     [AudioSaved 0 (Some (str ''audio/segment_0000.webm'')),
      WorkerTimer, WorkerIteration (heard (str ''erster Teil'')), WorkerIteration (heard [])]"

text \<open>
  Two seals whose saves overlap, in the desktop application: the segment sealed by the
  pause at 5200 ms is still being saved when the user, who spoke on, stops at 5550 ms
  and the last segment is sealed. Both saves return, in the order of the seals, and
  both items are transcribed.
\<close>

definition overlappingSaves :: "event list" where
  "overlappingSaves =
     [LiveButtonClicked 0 (Some (str ''p1''))] @ speech 0
     @ [AnimationFrame 5200 silentData, DataAvailable 100, RecorderStopped]
     @ ticks 0 1600 loudData [5300, 5400, 5500]
     @ [LiveButtonClicked 5550 None, StopTimer 5600, DataAvailable 100, RecorderStopped,
        AudioSaved 0 (Some (str ''audio/segment_0000.webm'')),
        AudioSaved 0 (Some (str ''audio/segment_0000.webm'')),
        WorkerTimer, WorkerIteration (heard (str ''erster Teil'')),
        WorkerIteration (heard (str ''zweiter Teil'')), WorkerIteration (heard []),
        DrainTimer, FinalDelayTimer]"

text \<open>
  The answers of the collaborators for the blob of the end-to-end scenario: 5.2 seconds
  of audio (83200 samples at 16 kHz), heard as two words.
\<close>

definition heardWhole :: stt_reply where
  "heardWhole =
     \<lparr>blobDuration = Returns (26 / 5), apiResponse = Returns (Ok (Some (str ''erster Teil''))),
      samples = Returns 83200, whisperText = Returns (str ''erster Teil'')\<rparr>"

text \<open>
  The silence of the end-to-end scenario going on, up to 9.8 seconds after the start.
\<close>

definition silenceGoesOn :: "int \<Rightarrow> event list" where
  "silenceGoesOn t0 =
     ticks t0 400 silentData
       [5600, 5700, 5800, 5900, 6000, 6100, 6200, 6300, 6400, 6500, 6600, 6700, 6800, 6900,
        7000, 7100, 7200, 7300, 7400, 7500, 7600, 7700, 7800, 7900, 8000, 8100, 8200, 8300,
        8400, 8500, 8600, 8700, 8800, 8900, 9000, 9100, 9200, 9300, 9400, 9500, 9600, 9700,
        9800]
     @ [DataAvailable 100, RecorderStopped]"

text \<open>
  \<open>stopLiveMode\<close> is under way: it has run its first, synchronous part and the wait for
  the queue has not ended.
\<close>

definition stopActive :: "live \<Rightarrow> bool" where
  "stopActive s \<longleftrightarrow> stopPc s \<noteq> NotStopping \<and> stopPc s \<noteq> StopScheduled"

text \<open>
  What holds of every state the component reaches: while \<open>stopLiveMode\<close> is under way
  the session is inactive and the browser has no frame callback left to run; a frame
  callback that is left is the one whose handle the ref holds; the button is disabled
  from the click to the end of the wait for the queue; during that wait the stream and
  the analysis resources are released.
\<close>

definition stopInv :: "live \<Rightarrow> bool" where
  "stopInv s \<longleftrightarrow>
     (stopActive s \<longrightarrow> \<not> liveModeActive s \<and> \<not> framePending s)
     \<and> (framePending s \<longrightarrow> liveAnimation s)
     \<and> (stopPc s \<noteq> NotStopping \<longrightarrow> isProcessingAfterLiveStop s)
     \<and> (stopPc s = Draining \<longrightarrow>
          \<not> recordingStream s \<and> \<not> audioContext s \<and> \<not> liveAnalyser s)"

text \<open>Two states that agree on what the invariant reads.\<close>

definition sameStop :: "live \<Rightarrow> live \<Rightarrow> bool" where
  "sameStop s' s \<longleftrightarrow>
     stopPc s' = stopPc s \<and> liveModeActive s' = liveModeActive s
     \<and> framePending s' = framePending s \<and> liveAnimation s' = liveAnimation s
     \<and> isProcessingAfterLiveStop s' = isProcessingAfterLiveStop s
     \<and> recordingStream s' = recordingStream s \<and> audioContext s' = audioContext s
     \<and> liveAnalyser s' = liveAnalyser s"

text \<open>The list of audio files in a call of the persistence collaborator, if it has one.\<close>

fun audioFilesWritten :: "jsstring \<times> project_save \<Rightarrow> jsstring list option" where
  "audioFilesWritten (project, SaveAudioFiles files) = Some files"
| "audioFilesWritten (project, other) = None"


section \<open>Runs\<close>

lemma run_Nil [simp]: "run cfg [] s = s"
  by (simp add: run_def)

lemma run_Cons [simp]: "run cfg (e # es) s = run cfg es (step cfg e s)"
  by (simp add: run_def)

lemma run_append: "run cfg (es @ fs) s = run cfg fs (run cfg es s)"
  by (simp add: run_def)

section \<open>The voice activity loop: gating and countdown\<close>

lemma quiet_frame:
  assumes "liveModeActive s" and "belowSilenceThreshold dataArray"
    and "length (audioChunks s) < minChunksForSegment"
  shows "checkVoiceActivity now dataArray s =
           s\<lparr>silenceStart := None, silenceCountdown := None,
             liveAnimation := True, framePending := True\<rparr>"
  using assms by (simp add: checkVoiceActivity_def)

text \<open>
  Claim C5. In an active session, take any sequence of frames whose loudness is under
  the silence threshold, at any times, mixed with chunks of the recorder, such that
  fewer than 15 chunks are buffered throughout. Then no seal is started (no suspended
  call, lock, recorder, queue and stored blobs as before), and once a frame has run the
  silence timer is unset and no countdown is shown. The times of the frames are
  arbitrary, so the run may last longer than the idle duration.
\<close>

theorem min_chunk_gating:
  assumes "liveModeActive s" and "framePending s"
    and "\<forall>e \<in> set es. subThresholdTick e \<or> isChunk e"
    and "length (audioChunks s) + length (filter isChunk es) < minChunksForSegment"
  shows "liveModeActive (run cfg es s) \<and> framePending (run cfg es s)
     \<and> sealFrame (run cfg es s) = sealFrame s
     \<and> isProcessingSegment (run cfg es s) = isProcessingSegment s
     \<and> mediaRecorder (run cfg es s) = mediaRecorder s
     \<and> transcriptionQueue (run cfg es s) = transcriptionQueue s
     \<and> liveAudioBlobs (run cfg es s) = liveAudioBlobs s
     \<and> (silenceStart s = None \<and> silenceCountdown s = None \<or> (\<exists>e \<in> set es. subThresholdTick e) \<longrightarrow>
          silenceStart (run cfg es s) = None \<and> silenceCountdown (run cfg es s) = None)"
  using assms
proof (induction es arbitrary: s)
  case Nil
  then show ?case by simp
next
  case (Cons e es)
  show ?case
  proof (cases e)
    case (AnimationFrame now dataArray)
    with Cons.prems have q: "belowSilenceThreshold dataArray"
      and len: "length (audioChunks s) < minChunksForSegment" by auto
    have st: "step cfg e s = s\<lparr>silenceStart := None, silenceCountdown := None,
                 liveAnimation := True, framePending := True\<rparr>"
      using Cons.prems(1,2) q len AnimationFrame by (simp add: quiet_frame)
    have "length (audioChunks (step cfg e s)) + length (filter isChunk es) < minChunksForSegment"
      using Cons.prems(4) AnimationFrame st by simp
    from Cons.IH [of "step cfg e s"] this Cons.prems st
    show ?thesis by simp
  next
    case (DataAvailable n)
    have st: "step cfg e s = s \<or> step cfg e s = s\<lparr>audioChunks := audioChunks s @ [n]\<rparr>"
      using DataAvailable by (simp add: dataAvailable_def)
    have "length (audioChunks (step cfg e s)) + length (filter isChunk es) < minChunksForSegment"
      using Cons.prems(4) DataAvailable st by auto
    moreover have "\<forall>e \<in> set es. subThresholdTick e \<or> isChunk e"
      using Cons.prems(3) by simp
    moreover have "liveModeActive (step cfg e s)" "framePending (step cfg e s)"
      using st Cons.prems(1,2) by auto
    ultimately have IH:
      "liveModeActive (run cfg es (step cfg e s)) \<and> framePending (run cfg es (step cfg e s))
       \<and> sealFrame (run cfg es (step cfg e s)) = sealFrame (step cfg e s)
       \<and> isProcessingSegment (run cfg es (step cfg e s)) = isProcessingSegment (step cfg e s)
       \<and> mediaRecorder (run cfg es (step cfg e s)) = mediaRecorder (step cfg e s)
       \<and> transcriptionQueue (run cfg es (step cfg e s)) = transcriptionQueue (step cfg e s)
       \<and> liveAudioBlobs (run cfg es (step cfg e s)) = liveAudioBlobs (step cfg e s)
       \<and> (silenceStart (step cfg e s) = None \<and> silenceCountdown (step cfg e s) = None
            \<or> (\<exists>e \<in> set es. subThresholdTick e) \<longrightarrow>
          silenceStart (run cfg es (step cfg e s)) = None
            \<and> silenceCountdown (run cfg es (step cfg e s)) = None)"
      using Cons.IH [of "step cfg e s"] by blast
    from st show ?thesis
    proof
      assume "step cfg e s = s"
      with IH DataAvailable show ?thesis by simp
    next
      assume "step cfg e s = s\<lparr>audioChunks := audioChunks s @ [n]\<rparr>"
      with IH DataAvailable show ?thesis by simp
    qed
  qed (use Cons.prems in auto)
qed

text \<open>
  A session with no chunk yet, three silent frames 9 seconds apart and one chunk: the
  timer stays unset and nothing is sealed.
\<close>

theorem min_chunk_gating_witness:
  "silenceStart
     (run browserConfig [AnimationFrame 100 [0], DataAvailable 500, AnimationFrame 4000 [0],
               AnimationFrame 9100 [0]]
        (initial\<lparr>liveModeActive := True, framePending := True, silenceStart := Some 50\<rparr>)) = None
   \<and> sealFrame
     (run browserConfig [AnimationFrame 100 [0], DataAvailable 500, AnimationFrame 4000 [0],
               AnimationFrame 9100 [0]]
        (initial\<lparr>liveModeActive := True, framePending := True, silenceStart := Some 50\<rparr>)) = None"
proof -
  let ?s = "initial\<lparr>liveModeActive := True, framePending := True, silenceStart := Some 50\<rparr>"
  let ?es = "[AnimationFrame 100 [0], DataAvailable 500, AnimationFrame 4000 [0],
              AnimationFrame 9100 [0]]"
  have a: "liveModeActive ?s" and b: "framePending ?s" by simp_all
  have c: "\<forall>e \<in> set ?es. subThresholdTick e \<or> isChunk e"
    by (simp add: belowSilenceThreshold_def average_def silenceThreshold_def)
  have d: "length (audioChunks ?s) + length (filter isChunk ?es) < minChunksForSegment"
    by (simp add: initial_def minChunksForSegment_def)
  have e: "\<exists>e \<in> set ?es. subThresholdTick e"
    by (simp add: belowSilenceThreshold_def average_def silenceThreshold_def)
  have f: "sealFrame ?s = None" by (simp add: initial_def)
  from min_chunk_gating [OF a b c d, of browserConfig] e f show ?thesis by simp
qed

text \<open>
  Claim C8. In an active session with enough chunks and a running silence timer, a
  silent frame at elapsed silence \<open>e = now - t0\<close> with threshold \<open>T\<close> shows the countdown
  \<open>max 0 (T - e)\<close> and leaves the timer running, unless \<open>e > T\<close> and no seal is in flight;
  then the timer and the countdown are cleared and \<open>processLiveSegment\<close> is called and
  not awaited: the frame loop is requested again while the call, if the recorder runs,
  is suspended with the lock held. \<open>T\<close> is the configured idle time, 3000 ms without one,
  as the start of a session sets it; outside live mode \<open>toggleLiveMode\<close> is that start.
\<close>

theorem countdown_until_trigger:
  assumes "liveModeActive s" and "belowSilenceThreshold dataArray"
    and "length (audioChunks s) \<ge> minChunksForSegment"
    and "silenceStart s = Some t0"
  shows "(\<not> (now - t0 > silenceDuration s \<and> \<not> isProcessingSegment s) \<longrightarrow>
            checkVoiceActivity now dataArray s =
              s\<lparr>silenceCountdown := Some (max 0 (silenceDuration s - (now - t0))),
                liveAnimation := True, framePending := True\<rparr>)
     \<and> (now - t0 > silenceDuration s \<and> \<not> isProcessingSegment s \<longrightarrow>
            checkVoiceActivity now dataArray s =
              (processLiveSegment now False (s\<lparr>silenceStart := None, silenceCountdown := None\<rparr>))
                \<lparr>liveAnimation := True, framePending := True\<rparr>
            \<and> silenceStart (checkVoiceActivity now dataArray s) = None
            \<and> silenceCountdown (checkVoiceActivity now dataArray s) = None
            \<and> framePending (checkVoiceActivity now dataArray s)
            \<and> (mediaRecorder s = Some Recording \<and> recordingStream s \<longrightarrow>
                 isProcessingSegment (checkVoiceActivity now dataArray s)
                 \<and> sealFrame (checkVoiceActivity now dataArray s) =
                     Some \<lparr>sealStartTime = of_int (now - recordingStartTime s) / 1000,
                           sealChunks = audioChunks s, sealAwaited = False\<rparr>))
     \<and> silenceDuration (toggleLiveMode_start cfg now0 created s0) =
          (case liveIdleTime cfg of None \<Rightarrow> 3000 | Some v \<Rightarrow> if v = 0 then 3000 else v)
     \<and> (\<not> liveMode s0 \<longrightarrow>
          toggleLiveMode cfg now0 created s0 = toggleLiveMode_start cfg now0 created s0)"
  using assms
  by (auto simp: checkVoiceActivity_def Let_def processLiveSegment_def toggleLiveMode_start_def
      toggleLiveMode_def)

text \<open>
  A session started without a configured idle time, 15 chunks, the timer started at
  1000: the frame at 2000 shows 2000, the frame at 4001 shows nothing and seals.
\<close>

theorem countdown_until_trigger_witness:
  "silenceCountdown
     (checkVoiceActivity 2000 [0]
        (initial\<lparr>liveModeActive := True, audioChunks := replicate 15 400,
                 silenceStart := Some 1000, mediaRecorder := Some Recording,
                 recordingStream := True\<rparr>)) = Some 2000
   \<and> silenceCountdown
     (checkVoiceActivity 4001 [0]
        (initial\<lparr>liveModeActive := True, audioChunks := replicate 15 400,
                 silenceStart := Some 1000, mediaRecorder := Some Recording,
                 recordingStream := True\<rparr>)) = None
   \<and> isProcessingSegment
     (checkVoiceActivity 4001 [0]
        (initial\<lparr>liveModeActive := True, audioChunks := replicate 15 400,
                 silenceStart := Some 1000, mediaRecorder := Some Recording,
                 recordingStream := True\<rparr>))"
proof -
  let ?s = "initial\<lparr>liveModeActive := True, audioChunks := replicate 15 400,
                     silenceStart := Some 1000, mediaRecorder := Some Recording,
                     recordingStream := True\<rparr>"
  have a: "liveModeActive ?s" by simp
  have b: "belowSilenceThreshold [0]"
    by (simp add: belowSilenceThreshold_def average_def silenceThreshold_def)
  have c: "length (audioChunks ?s) \<ge> minChunksForSegment"
    by (simp add: minChunksForSegment_def)
  have d: "silenceStart ?s = Some 1000" by simp
  have e: "silenceDuration ?s = 3000" "\<not> isProcessingSegment ?s"
    by (simp_all add: initial_def)
  from countdown_until_trigger [OF a b c d, of 2000] e
  have "silenceCountdown (checkVoiceActivity 2000 [0] ?s) = Some 2000" by simp
  moreover from countdown_until_trigger [OF a b c d, of 4001] e
  have "silenceCountdown (checkVoiceActivity 4001 [0] ?s) = None
        \<and> isProcessingSegment (checkVoiceActivity 4001 [0] ?s)"
    by (simp add: processLiveSegment_def)
  ultimately show ?thesis by simp
qed

section \<open>Sealing without a recorder\<close>

text \<open>
  Claim C9 says that a seal without an active recorder fails loudly. In the source the
  call returns at its guards. With no recorder (the component as mounted) the call
  changes nothing and reports nothing.
\<close>

theorem seal_without_recorder_counterexample:
  "mediaRecorder initial = None \<and> errors initial = []
   \<and> errors (processLiveSegment 0 False initial) = []
   \<and> processLiveSegment 0 False initial = initial"
  by (simp add: initial_def processLiveSegment_def)

text \<open>
  Claim C9, amended. \<open>processLiveSegment\<close> called without a recorder, without a stream,
  or while another seal holds the lock, returns at once and leaves the whole state as
  it was: nothing is sealed and no error is reported.
\<close>

theorem seal_without_recorder_is_silent:
  assumes "mediaRecorder s = None \<or> \<not> recordingStream s \<or> isProcessingSegment s"
  shows "processLiveSegment now awaited s = s"
  using assms by (auto simp: processLiveSegment_def)

theorem seal_without_recorder_witness:
  "mediaRecorder (initial\<lparr>recordingStream := True\<rparr>) = None
   \<and> processLiveSegment 7 True (initial\<lparr>recordingStream := True\<rparr>)
       = initial\<lparr>recordingStream := True\<rparr>"
proof -
  have h: "mediaRecorder (initial\<lparr>recordingStream := True\<rparr>) = None
      \<or> \<not> recordingStream (initial\<lparr>recordingStream := True\<rparr>)
      \<or> isProcessingSegment (initial\<lparr>recordingStream := True\<rparr>)"
    by (simp add: initial_def)
  show ?thesis
    using seal_without_recorder_is_silent [OF h, of 7 True] by (simp add: initial_def)
qed


section \<open>Text processing: white space, words and tags\<close>

lemma backtrack_Some: "backtrack Some s lo n = (if lo \<le> n then Some (drop n s) else None)"
  by (cases n) auto

lemma matchPieces_Nil_fun: "matchPieces [] = Some"
  by (rule ext) simp

lemma matchPieces_ws:
  "matchPieces [Piece WS (Suc 0) None] s =
     (if s \<noteq> [] \<and> isWhiteSpace (hd s) then Some (dropWhile isWhiteSpace s) else None)"
proof -
  have eq: "(\<lambda>c. atomMatches WS c) = isWhiteSpace" by (rule ext) simp
  have "Suc 0 \<le> length (takeWhile isWhiteSpace s) \<longleftrightarrow> s \<noteq> [] \<and> isWhiteSpace (hd s)"
    by (cases s) auto
  then show ?thesis
    by (simp add: matchPieces_Nil_fun backtrack_Some eq dropWhile_eq_drop Let_def)
qed

lemma collapse_Cons:
  "replaceAll [Piece WS (Suc 0) None] rep (c # cs) =
     (if isWhiteSpace c
      then rep @ replaceAll [Piece WS (Suc 0) None] rep (dropWhile isWhiteSpace cs)
      else c # replaceAll [Piece WS (Suc 0) None] rep cs)"
  using matchPieces_ws [of "c # cs"]
  by (simp add: length_dropWhile_le del: matchPieces.simps)

lemma collapse_spaces:
  "c \<in> set (replaceAll [Piece WS (Suc 0) None] [32] s) \<Longrightarrow> isWhiteSpace c \<Longrightarrow> c = 32"
proof (induction s rule: length_induct)
  case (1 s)
  show ?case
  proof (cases s)
    case Nil
    with 1 show ?thesis by simp
  next
    case (Cons a as)
    have le: "length (dropWhile isWhiteSpace as) < length s"
      using Cons by (simp add: le_imp_less_Suc length_dropWhile_le)
    have le2: "length as < length s" using Cons by simp
    show ?thesis
    proof (cases "isWhiteSpace a")
      case True
      with "1.prems" Cons
      have "c = 32 \<or> c \<in> set (replaceAll [Piece WS (Suc 0) None] [32] (dropWhile isWhiteSpace as))"
        by (simp add: collapse_Cons del: replaceAll.simps)
      with "1.IH" le "1.prems"(2) show ?thesis by blast
    next
      case False
      with "1.prems" Cons
      have "c = a \<or> c \<in> set (replaceAll [Piece WS (Suc 0) None] [32] as)"
        by (simp add: collapse_Cons del: replaceAll.simps)
      with "1.IH" le2 "1.prems"(2) False show ?thesis by blast
    qed
  qed
qed

lemma set_trim: "set (trim s) \<subseteq> set s"
  by (auto simp: trim_def dest!: set_dropWhileD)

lemma trim_ends:
  assumes "trim s \<noteq> []"
  shows "\<not> isWhiteSpace (hd (trim s)) \<and> \<not> isWhiteSpace (last (trim s))"
proof -
  let ?d = "dropWhile isWhiteSpace s"
  let ?r = "dropWhile isWhiteSpace (rev ?d)"
  from assms have r: "?r \<noteq> []" by (simp add: trim_def)
  then have hdr: "\<not> isWhiteSpace (hd ?r)" by (metis hd_dropWhile)
  have "last (trim s) = hd ?r" using r by (simp add: trim_def last_rev)
  moreover
  have d: "?d \<noteq> []"
  proof
    assume "?d = []"
    then have "?r = []" by (simp only: rev.simps dropWhile.simps)
    with r show False by contradiction
  qed
  then have hdd: "\<not> isWhiteSpace (hd ?d)" by (metis hd_dropWhile)
  have "hd (trim s) = hd ?d"
  proof -
    obtain ys where ys: "rev ?d = takeWhile isWhiteSpace (rev ?d) @ ?r" by simp
    have "?d = rev ?r @ rev (takeWhile isWhiteSpace (rev ?d))"
      by (metis rev_append rev_rev_ident takeWhile_dropWhile_id)
    then have "hd ?d = hd (rev ?r)" using r by (metis hd_append2 rev_is_Nil_conv)
    then show ?thesis by (simp add: trim_def)
  qed
  ultimately show ?thesis using hdr hdd by simp
qed

lemma wordStarts_skip_word:
  "wordStarts False s = wordStarts True (dropWhile (\<lambda>c. \<not> isWhiteSpace c) s)"
  by (induction s) auto

lemma wordStarts_skip_space:
  "wordStarts True s = wordStarts True (dropWhile isWhiteSpace s)"
  by (induction s) auto

lemma last_dropWhile_ne: "dropWhile P s \<noteq> [] \<Longrightarrow> last (dropWhile P s) = last s"
proof -
  assume ne: "dropWhile P s \<noteq> []"
  then have "last (takeWhile P s @ dropWhile P s) = last (dropWhile P s)"
    by (rule last_appendR)
  then show ?thesis by simp
qed

lemma jsSplit_unfold:
  "jsSplit s =
     (if dropWhile (\<lambda>c. \<not> isWhiteSpace c) s = [] then [takeWhile (\<lambda>c. \<not> isWhiteSpace c) s]
      else takeWhile (\<lambda>c. \<not> isWhiteSpace c) s
             # jsSplit (dropWhile isWhiteSpace (dropWhile (\<lambda>c. \<not> isWhiteSpace c) s)))"
  by (subst jsSplit.simps) (simp only: Let_def)

lemma jsSplit_words:
  "s \<noteq> [] \<Longrightarrow> \<not> isWhiteSpace (hd s) \<Longrightarrow> \<not> isWhiteSpace (last s) \<Longrightarrow>
     length (jsSplit s) = countWords s \<and> [] \<notin> set (jsSplit s)"
proof (induction s rule: jsSplit.induct)
  case (1 s)
  let ?w = "takeWhile (\<lambda>c. \<not> isWhiteSpace c) s"
  let ?r = "dropWhile (\<lambda>c. \<not> isWhiteSpace c) s"
  let ?t = "dropWhile isWhiteSpace ?r"
  from "1.prems" obtain c cs where s: "s = c # cs" and c: "\<not> isWhiteSpace c"
    by (cases s) auto
  have w: "?w \<noteq> []" using s c by simp
  have cw: "countWords s = Suc (wordStarts True ?r)"
    using s c by (simp add: countWords_def wordStarts_skip_word)
  show ?case
  proof (cases "?r = []")
    case True
    have z: "wordStarts True ?r = 0" by (simp only: True wordStarts.simps)
    have "jsSplit s = [?w]" by (subst jsSplit_unfold) (simp only: True simp_thms if_True)
    with w cw z show ?thesis by simp
  next
    case False
    have lr: "last ?r = last s" using False by (rule last_dropWhile_ne)
    have t: "?t \<noteq> []"
    proof
      assume "?t = []"
      then have "\<forall>x \<in> set ?r. isWhiteSpace x" by (simp only: dropWhile_eq_Nil_conv)
      with False have "isWhiteSpace (last ?r)" using last_in_set by blast
      with lr "1.prems"(3) show False by simp
    qed
    have hdt: "\<not> isWhiteSpace (hd ?t)" using t by (rule hd_dropWhile)
    have lt: "last ?t = last s" using last_dropWhile_ne [OF t] lr by (rule trans)
    have "\<not> isWhiteSpace (last ?t)" using lt "1.prems"(3) by simp
    from "1.IH" [OF refl refl False t hdt this]
    have IH: "length (jsSplit ?t) = countWords ?t \<and> [] \<notin> set (jsSplit ?t)" .
    have ct: "countWords s = Suc (countWords ?t)"
      using cw wordStarts_skip_space [of ?r] by (simp only: countWords_def)
    have "jsSplit s = ?w # jsSplit ?t" by (subst jsSplit_unfold) (simp only: False if_False)
    with IH ct w show ?thesis by simp
  qed
qed

lemma jsIncludes_sublist: "jsIncludes s sub \<longleftrightarrow> sublist sub s"
proof (induction s)
  case Nil
  then show ?case by simp
next
  case (Cons c cs)
  have "take (length sub) (c # cs) = sub \<longleftrightarrow> prefix sub (c # cs)"
  proof
    assume "take (length sub) (c # cs) = sub"
    then show "prefix sub (c # cs)" by (metis take_is_prefix)
  next
    assume "prefix sub (c # cs)"
    then obtain zs where "c # cs = sub @ zs" by (auto simp: prefix_def)
    then show "take (length sub) (c # cs) = sub" by simp
  qed
  with Cons show ?case by (simp add: sublist_Cons_right del: take_Suc_Cons)
qed

lemma hasRepeatedChars_sublist:
  "hasRepeatedChars s \<longleftrightarrow> (\<exists>c. \<not> isLineTerminator c \<and> sublist (replicate 4 c) s)"
proof (induction s rule: hasRepeatedChars.induct)
  case (1 a b c d rest)
  have rep: "\<And>x. replicate 4 x = [x, x, x, x]" by (simp add: numeral_eq_Suc)
  have "(\<exists>x. \<not> isLineTerminator x \<and> prefix (replicate 4 x) (a # b # c # d # rest))
          \<longleftrightarrow> (\<not> isLineTerminator a \<and> a = b \<and> b = c \<and> c = d)"
    by (auto simp: rep)
  with 1 show ?case
    by (subst hasRepeatedChars.simps) (auto simp: sublist_Cons_right [of _ a])
qed (auto simp: numeral_eq_Suc sublist_Cons_right)

lemma lineTerminator_is_space: "isLineTerminator c \<Longrightarrow> isWhiteSpace c \<and> c \<noteq> 32"
  by (auto simp: isLineTerminator_def isWhiteSpace_def)

lemma filtered_no_lineTerminator:
  "c \<in> set (filterNonSpeechTags t False) \<Longrightarrow> \<not> isLineTerminator c"
proof
  assume c: "c \<in> set (filterNonSpeechTags t False)" and lt: "isLineTerminator c"
  from c have "c \<in> set (replaceAll [Piece WS (Suc 0) None] [32] (stripTags t))"
    using set_trim by (auto simp: filterNonSpeechTags_def str_def)
  with lt lineTerminator_is_space [OF lt] collapse_spaces show False by blast
qed

lemma filtered_ends:
  "filterNonSpeechTags t False \<noteq> [] \<Longrightarrow>
     \<not> isWhiteSpace (hd (filterNonSpeechTags t False))
     \<and> \<not> isWhiteSpace (last (filterNonSpeechTags t False))"
  using trim_ends by (simp add: filterNonSpeechTags_def)

lemma filtered_repeated:
  "hasRepeatedChars (filterNonSpeechTags t False)
     \<longleftrightarrow> (\<exists>c. sublist (replicate 4 c) (filterNonSpeechTags t False))"
proof -
  have "\<And>c. sublist (replicate 4 c) (filterNonSpeechTags t False) \<Longrightarrow> \<not> isLineTerminator c"
  proof -
    fix c assume "sublist (replicate 4 c) (filterNonSpeechTags t False)"
    then have "set (replicate 4 c) \<subseteq> set (filterNonSpeechTags t False)"
      by (rule set_mono_sublist)
    then have "c \<in> set (filterNonSpeechTags t False)" by simp
    then show "\<not> isLineTerminator c" by (rule filtered_no_lineTerminator)
  qed
  then show ?thesis unfolding hasRepeatedChars_sublist by blast
qed

lemma filtered_wordCount:
  "wordCount (filterNonSpeechTags t False) = countWords (filterNonSpeechTags t False)"
proof (cases "filterNonSpeechTags t False = []")
  case True
  then show ?thesis by (simp add: wordCount_def countWords_def)
next
  case False
  with filtered_ends [OF False] jsSplit_words [of "filterNonSpeechTags t False"]
  show ?thesis by (simp add: wordCount_def)
qed

lemma filtered_split_nonempty:
  "filterNonSpeechTags t False \<noteq> [] \<Longrightarrow> [] \<notin> set (jsSplit (filterNonSpeechTags t False))"
  using filtered_ends jsSplit_words by blast

lemma heuristic_characterised:
  "workerIsUncertain segmentText audioDuration \<longleftrightarrow>
     (let w = filterNonSpeechTags segmentText False
      in length w < 2
         \<or> (2 \<le> length w
            \<and> ((countWords w \<le> 2 \<and> 3 < audioDuration)
               \<or> sublist (str ''...'') w
               \<or> (\<exists>c. sublist (replicate 4 c) w))))"
  unfolding workerIsUncertain_def Let_def hasActualSpeech_def
    filtered_wordCount jsIncludes_sublist filtered_repeated
  by auto

lemma replaceAll_no_first:
  assumes "\<forall>c \<in> set s. canonicalize c \<noteq> canonicalize p"
  shows "replaceAll (Piece (Ch p) (Suc 0) (Some (Suc 0)) # ps) rep s = s"
  using assms by (induction s) simp_all

lemma tag_first_chars:
  "\<forall>ps \<in> set nonSpeechTagPatterns.
     \<exists>p rest. ps = Piece (Ch p) (Suc 0) (Some (Suc 0)) # rest \<and> (p = 40 \<or> p = 42 \<or> p = 91)"
  by (simp add: nonSpeechTagPatterns_def parenTag_def starTag_def starPhrase_def lit_def str_def)

lemma canon_tag_char:
  assumes "p = 40 \<or> p = 42 \<or> p = 91" and "c \<noteq> 40 \<and> c \<noteq> 42 \<and> c \<noteq> 91"
  shows "canonicalize c \<noteq> canonicalize p"
proof -
  have p: "canonicalize p = p" using assms(1) by (auto simp: canonicalize_def)
  have "canonicalize c = c
          \<or> (canonicalize c = c - 32 \<and> (97 \<le> c \<and> c \<le> 122 \<or> 224 \<le> c \<and> c \<le> 254))"
    by (auto simp: canonicalize_def)
  with assms p show ?thesis by auto
qed

lemma foldl_replace_id:
  assumes "\<forall>ps \<in> set pats. replaceAll ps [] t = t"
  shows "foldl (\<lambda>filtered pattern. replaceAll pattern [] filtered) t pats = t"
  using assms by (induction pats) simp_all

lemma stripTags_plain:
  assumes "\<forall>c \<in> set t. c \<noteq> 40 \<and> c \<noteq> 42 \<and> c \<noteq> 91"
  shows "stripTags t = t"
proof -
  have "\<forall>ps \<in> set nonSpeechTagPatterns. replaceAll ps [] t = t"
  proof
    fix ps assume "ps \<in> set nonSpeechTagPatterns"
    with tag_first_chars obtain p rest
      where ps: "ps = Piece (Ch p) (Suc 0) (Some (Suc 0)) # rest"
        and p: "p = 40 \<or> p = 42 \<or> p = 91" by blast
    have "\<forall>c \<in> set t. canonicalize c \<noteq> canonicalize p"
      using assms p canon_tag_char by blast
    then show "replaceAll ps [] t = t" unfolding ps by (rule replaceAll_no_first)
  qed
  then show ?thesis unfolding stripTags_def by (rule foldl_replace_id)
qed

lemma collapse_Nil: "replaceAll [Piece WS (Suc 0) None] rep [] = []"
  by simp

lemma filter_ja: "filterNonSpeechTags (str ''ja...'') False = str ''ja...''"
proof -
  have "stripTags (str ''ja...'') = str ''ja...''"
    by (rule stripTags_plain) (simp add: str_def)
  then show ?thesis
    by (simp add: filterNonSpeechTags_def str_def collapse_Cons collapse_Nil isWhiteSpace_def
        trim_def del: replaceAll.simps)
qed



lemma ja_uncertain: "workerIsUncertain (str ''ja...'') 4"
  unfolding heuristic_characterised filter_ja Let_def
  by (simp add: str_def countWords_def isWhiteSpace_def)







section \<open>The uncertainty heuristic\<close>



section \<open>The tooltip\<close>

lemma tooltip_reasons_iff:
  "tooltipReasons seg \<noteq> [] \<longleftrightarrow>
     workerIsUncertain (segText seg) (segEndTime seg - segStartTime seg)"
proof -
  let ?w = "filterNonSpeechTags (segText seg) False"
  have wc: "(if ?w \<noteq> [] then length (filter (\<lambda>w. w \<noteq> []) (jsSplit ?w)) else 0) = wordCount ?w"
  proof (cases "?w = []")
    case True
    then show ?thesis by (simp add: wordCount_def)
  next
    case False
    from filtered_split_nonempty [OF False]
    have "filter (\<lambda>w. w \<noteq> []) (jsSplit ?w) = jsSplit ?w"
      by (metis (mono_tags, lifting) filter_True)
    with False show ?thesis by (simp add: wordCount_def)
  qed
  show ?thesis
    unfolding tooltipReasons_def workerIsUncertain_def Let_def wc
    by auto
qed

text \<open>
  Claim C10. For a segment as the worker made it (the flag is the worker's heuristic on
  the stored text and on the audio duration, and end minus start is that duration),
  \<open>getUncertainTooltip\<close> answers with a non-empty list of reasons exactly when the flag is
  set.
\<close>

theorem tooltip_agrees_with_worker:
  assumes "segIsUncertain seg = Some (workerIsUncertain (segText seg) audioDuration)"
    and "segEndTime seg - segStartTime seg = audioDuration"
  shows "(\<exists>reasons. getUncertainTooltip seg = Explained reasons \<and> reasons \<noteq> [])
           \<longleftrightarrow> segIsUncertain seg = Some True"
  using assms tooltip_reasons_iff [of seg]
  by (auto simp: getUncertainTooltip_def Let_def)

text \<open>
  The segment of \<open>ja...\<close> with 4 seconds, flagged by the worker, gets reasons; the
  unflagged sentence gets the generic text.
\<close>

theorem tooltip_agrees_with_worker_witness:
  "(\<exists>reasons. getUncertainTooltip
       \<lparr>segId = 0, segText = str ''ja...'', segStartTime = 5, segEndTime = 9,
        segAudioFile = None, segIsUncertain = Some True\<rparr> = Explained reasons \<and> reasons \<noteq> [])
   \<and> getUncertainTooltip
       \<lparr>segId = 1, segText = klarerSatz, segStartTime = 9, segEndTime = 13,
        segAudioFile = None, segIsUncertain = Some False\<rparr> = Generic"
proof -
  let ?a = "\<lparr>segId = 0, segText = str ''ja...'', segStartTime = 5, segEndTime = 9,
        segAudioFile = None, segIsUncertain = Some True\<rparr>"
  have h1: "segIsUncertain ?a = Some (workerIsUncertain (segText ?a) 4)"
    using ja_uncertain by simp
  have h2: "segEndTime ?a - segStartTime ?a = 4" by simp
  from tooltip_agrees_with_worker [OF h1 h2]
  have "\<exists>reasons. getUncertainTooltip ?a = Explained reasons \<and> reasons \<noteq> []" by simp
  moreover have "getUncertainTooltip
       \<lparr>segId = 1, segText = klarerSatz, segStartTime = 9, segEndTime = 13,
        segAudioFile = None, segIsUncertain = Some False\<rparr> = Generic"
    by (simp add: getUncertainTooltip_def)
  ultimately show ?thesis by simp
qed

section \<open>The transcription worker: failures and order\<close>

lemma failed_iteration:
  assumes "isTranscribing s" and "transcriptionQueue s = item # rest"
    and "transcribeItem cfg reply item = Failed message"
  shows "workerIteration cfg reply s =
           s\<lparr>transcriptionQueue := rest, errors := errors s @ [message],
             isTranscribing := (rest \<noteq> [])\<rparr>"
  using assms by (cases rest) (simp_all add: workerIteration_def loopTest_def)

lemma throwing_transcription:
  "sttProvider cfg \<noteq> str ''whisper-api'' \<Longrightarrow> samples reply = Returns n \<Longrightarrow> 8000 \<le> n \<Longrightarrow>
     whisperText reply = Throws m \<Longrightarrow> transcribeItem cfg reply item = Failed m"
  "sttProvider cfg = str ''whisper-api'' \<Longrightarrow> blobDuration reply = Returns d \<Longrightarrow> 1 / 2 \<le> d \<Longrightarrow>
     truthy (map_option trim (whisperApiKey cfg)) = Some wk \<Longrightarrow> apiResponse reply = Throws m \<Longrightarrow>
     transcribeItem cfg reply item = Failed m"
  "sttProvider cfg = str ''whisper-api'' \<Longrightarrow> blobDuration reply = Returns d \<Longrightarrow> 1 / 2 \<le> d \<Longrightarrow>
     truthy (map_option trim (whisperApiKey cfg)) = Some wk \<Longrightarrow>
     apiResponse reply = Returns (NotOk e) \<Longrightarrow>
     transcribeItem cfg reply item = Failed (orElse e (str ''Whisper-API-Fehler''))"
  by (simp_all add: transcribeItem_def)

lemma trim_plain:
  "s \<noteq> [] \<Longrightarrow> \<not> isWhiteSpace (hd s) \<Longrightarrow> \<not> isWhiteSpace (last s) \<Longrightarrow> trim s = s"
proof -
  assume ne: "s \<noteq> []" and h: "\<not> isWhiteSpace (hd s)" and l: "\<not> isWhiteSpace (last s)"
  from ne h have a: "dropWhile isWhiteSpace s = s" by (cases s) auto
  from ne l have "dropWhile isWhiteSpace (rev s) = rev s"
    by (cases "rev s") (auto simp: last_rev [symmetric] hd_rev)
  with a show ?thesis by (simp add: trim_def)
qed

lemma heard_local:
  assumes "sttProvider cfg \<noteq> str ''whisper-api''" and "2 \<le> length t"
    and "\<not> isWhiteSpace (hd t)" and "\<not> isWhiteSpace (last t)"
  shows "transcribeItem cfg (heard t) item =
           Completed \<lparr>segId = segmentIndex item, segText = t, segStartTime = startTime item,
                      segEndTime = startTime item + 4, segAudioFile = truthy (audioFilePath item),
                      segIsUncertain = Some (workerIsUncertain t 4)\<rparr>"
proof -
  from assms have "trim t = t" by (intro trim_plain) auto
  with assms show ?thesis
    by (auto simp: transcribeItem_def heard_def newSegment_def)
qed

lemma browser_local: "sttProvider browserConfig \<noteq> str ''whisper-api''"
  by (simp add: browserConfig_def str_def)

lemma three_items:
  "map segId (segments (run browserConfig
       [WorkerTimer, WorkerIteration (heard (str ''eins zwei'')),
        WorkerIteration (failing (str ''decoder crashed'')),
        WorkerIteration (heard (str ''drei vier'')), WorkerIteration (heard [])]
       (initial\<lparr>transcriptionQueue := [queuedItem 1, queuedItem 2, queuedItem 3],
                workerTimers := 1\<rparr>))) = [1, 3]
   \<and> errors (run browserConfig
       [WorkerTimer, WorkerIteration (heard (str ''eins zwei'')),
        WorkerIteration (failing (str ''decoder crashed'')),
        WorkerIteration (heard (str ''drei vier'')), WorkerIteration (heard [])]
       (initial\<lparr>transcriptionQueue := [queuedItem 1, queuedItem 2, queuedItem 3],
                workerTimers := 1\<rparr>)) = [str ''decoder crashed'']
   \<and> transcriptionQueue (run browserConfig
       [WorkerTimer, WorkerIteration (heard (str ''eins zwei'')),
        WorkerIteration (failing (str ''decoder crashed'')),
        WorkerIteration (heard (str ''drei vier'')), WorkerIteration (heard [])]
       (initial\<lparr>transcriptionQueue := [queuedItem 1, queuedItem 2, queuedItem 3],
                workerTimers := 1\<rparr>)) = []
   \<and> \<not> isTranscribing (run browserConfig
       [WorkerTimer, WorkerIteration (heard (str ''eins zwei'')),
        WorkerIteration (failing (str ''decoder crashed'')),
        WorkerIteration (heard (str ''drei vier'')), WorkerIteration (heard [])]
       (initial\<lparr>transcriptionQueue := [queuedItem 1, queuedItem 2, queuedItem 3],
                workerTimers := 1\<rparr>))"
proof -
  have h1: "transcribeItem browserConfig (heard (str ''eins zwei'')) (queuedItem (Suc 0)) =
     Completed \<lparr>segId = 1, segText = str ''eins zwei'', segStartTime = 10,
                segEndTime = 14, segAudioFile = None,
                segIsUncertain = Some (workerIsUncertain (str ''eins zwei'') 4)\<rparr>"
    by (subst heard_local)
       (simp_all add: browserConfig_def str_def isWhiteSpace_def queuedItem_def truthy_def)
  have h3: "transcribeItem browserConfig (heard (str ''drei vier'')) (queuedItem 3) =
     Completed \<lparr>segId = 3, segText = str ''drei vier'', segStartTime = 20,
                segEndTime = 24, segAudioFile = None,
                segIsUncertain = Some (workerIsUncertain (str ''drei vier'') 4)\<rparr>"
    by (subst heard_local)
       (simp_all add: browserConfig_def str_def isWhiteSpace_def queuedItem_def truthy_def)
  have h2: "transcribeItem browserConfig (failing (str ''decoder crashed'')) (queuedItem 2) =
     Failed (str ''decoder crashed'')"
    by (rule throwing_transcription(1) [where n = 64000])
       (simp_all add: browserConfig_def str_def failing_def)
  show ?thesis
    by (simp add: initial_def processTranscriptionQueue_def workerIteration_def h1 h2 h3
        loopTest_def appendSegment_def projectId_def truthy_def Let_def)
qed

lemma workerRun_Nil: "workerRun cfg [] s = s"
  by (simp add: workerRun_def)

lemma workerRun_Cons:
  "workerRun cfg (e # wes) s = workerRun cfg wes (workerStep cfg e s)"
  by (simp add: workerRun_def)

lemma pushed_append: "pushed (xs @ ys) = pushed xs @ pushed ys"
  by (induction xs rule: pushed.induct) simp_all

lemma completed_key:
  "transcribeItem cfg reply item = Completed seg \<Longrightarrow> segKey seg = itemKey item"
  by (auto simp: transcribeItem_def newSegment_def segKey_def itemKey_def
      split: if_splits outcome.splits option.splits api_response.splits)

lemma enqueue_unawaited:
  "enqueueSegment (audioBlob item) (segmentIndex item) (startTime item) (audioFilePath item)
     False s =
     s\<lparr>liveAudioBlobs := liveAudioBlobs s @ [(audioBlob item, startTime item)],
       transcriptionQueue := transcriptionQueue s @ [item],
       workerTimers := (if isTranscribing s then workerTimers s else workerTimers s + 1)\<rparr>"
  by (cases item) (simp add: enqueueSegment_def finishSeal_def)

text \<open>
  The worker consumes the queue in the order of the pushes, whatever the interleaving of
  pushes, timer and iterations: a completed item adds exactly its segment at the end of
  the list and leaves the rest of the queue, and over a whole run the new segments are, by
  id, start time and audio file, a subsequence of the consumed items.
\<close>

lemma completed_iteration:
  assumes "isTranscribing s" and "transcriptionQueue s = item # rest"
    and "transcribeItem cfg reply item = Completed seg"
  shows "segments (workerIteration cfg reply s) = segments s @ [seg]
     \<and> transcriptionQueue (workerIteration cfg reply s) = rest
     \<and> isTranscribing (workerIteration cfg reply s)
     \<and> segKey seg = itemKey item"
  using assms completed_key [OF assms(3)]
  by (simp add: workerIteration_def appendSegment_def Let_def)

lemma single_worker: "isTranscribing s \<Longrightarrow> processTranscriptionQueue s = s"
  by (simp add: processTranscriptionQueue_def)

lemma workerStep_order:
  "\<exists>new consumed.
     segments (workerStep cfg e s) = segments s @ new
     \<and> transcriptionQueue s @ pushed [e] = consumed @ transcriptionQueue (workerStep cfg e s)
     \<and> subseq (map segKey new) (map itemKey consumed)"
proof (cases e)
  case (Push item)
  then have "segments (workerStep cfg e s) = segments s @ []
     \<and> transcriptionQueue s @ pushed [e] = [] @ transcriptionQueue (workerStep cfg e s)
     \<and> subseq (map segKey []) (map itemKey [])"
    by (simp add: enqueue_unawaited)
  then show ?thesis by blast
next
  case Timer
  then have "segments (workerStep cfg e s) = segments s @ []
     \<and> transcriptionQueue s @ pushed [e] = [] @ transcriptionQueue (workerStep cfg e s)
     \<and> subseq (map segKey []) (map itemKey [])"
    by (simp add: processTranscriptionQueue_def)
  then show ?thesis by blast
next
  case (Iterate reply)
  show ?thesis
  proof (cases "isTranscribing s \<and> transcriptionQueue s \<noteq> []")
    case False
    with Iterate have "segments (workerStep cfg e s) = segments s @ []
     \<and> transcriptionQueue s @ pushed [e] = [] @ transcriptionQueue (workerStep cfg e s)
     \<and> subseq (map segKey []) (map itemKey [])"
      by (auto simp: workerIteration_def)
    then show ?thesis by blast
  next
    case True
    then obtain item rest where q: "transcriptionQueue s = item # rest"
      by (cases "transcriptionQueue s") auto
    show ?thesis
    proof (cases "transcribeItem cfg reply item")
      case (Completed seg)
      with Iterate True q completed_key [OF Completed]
      have "segments (workerStep cfg e s) = segments s @ [seg]
         \<and> transcriptionQueue s @ pushed [e] = [item] @ transcriptionQueue (workerStep cfg e s)
         \<and> subseq (map segKey [seg]) (map itemKey [item])"
        by (simp add: workerIteration_def appendSegment_def Let_def)
      then show ?thesis by blast
    next
      case Skipped
      with Iterate True q
      have "segments (workerStep cfg e s) = segments s @ []
         \<and> transcriptionQueue s @ pushed [e] = [item] @ transcriptionQueue (workerStep cfg e s)
         \<and> subseq (map segKey []) (map itemKey [item])"
        by (simp add: workerIteration_def loopTest_def Let_def)
      then show ?thesis by blast
    next
      case (Failed m)
      with Iterate True q
      have "segments (workerStep cfg e s) = segments s @ []
         \<and> transcriptionQueue s @ pushed [e] = [item] @ transcriptionQueue (workerStep cfg e s)
         \<and> subseq (map segKey []) (map itemKey [item])"
        by (simp add: workerIteration_def loopTest_def Let_def)
      then show ?thesis by blast
    qed
  qed
qed

lemma workerRun_order:
  "\<exists>new consumed.
     segments (workerRun cfg wes s) = segments s @ new
     \<and> transcriptionQueue s @ pushed wes = consumed @ transcriptionQueue (workerRun cfg wes s)
     \<and> subseq (map segKey new) (map itemKey consumed)"
proof (induction wes arbitrary: s)
  case Nil
  have "segments (workerRun cfg [] s) = segments s @ []
     \<and> transcriptionQueue s @ pushed [] = [] @ transcriptionQueue (workerRun cfg [] s)
     \<and> subseq (map segKey []) (map itemKey [])" by (simp add: workerRun_Nil)
  then show ?case by blast
next
  case (Cons e wes)
  let ?s1 = "workerStep cfg e s"
  from workerStep_order [of cfg e s] obtain new1 consumed1 where
    a: "segments ?s1 = segments s @ new1"
    and b: "transcriptionQueue s @ pushed [e] = consumed1 @ transcriptionQueue ?s1"
    and c: "subseq (map segKey new1) (map itemKey consumed1)" by blast
  from Cons.IH [of ?s1] obtain new2 consumed2 where
    a2: "segments (workerRun cfg wes ?s1) = segments ?s1 @ new2"
    and b2: "transcriptionQueue ?s1 @ pushed wes = consumed2 @ transcriptionQueue (workerRun cfg wes ?s1)"
    and c2: "subseq (map segKey new2) (map itemKey consumed2)" by blast
  have "pushed (e # wes) = pushed [e] @ pushed wes"
    using pushed_append [of "[e]" wes] by simp
  then have "transcriptionQueue s @ pushed (e # wes)
        = (transcriptionQueue s @ pushed [e]) @ pushed wes" by simp
  also have "\<dots> = consumed1 @ (transcriptionQueue ?s1 @ pushed wes)"
    by (simp only: b append_assoc)
  also have "\<dots> = (consumed1 @ consumed2) @ transcriptionQueue (workerRun cfg (e # wes) s)"
    by (simp only: b2 append_assoc workerRun_Cons)
  finally have "transcriptionQueue s @ pushed (e # wes)
        = (consumed1 @ consumed2) @ transcriptionQueue (workerRun cfg (e # wes) s)" .
  moreover have "segments (workerRun cfg (e # wes) s) = segments s @ (new1 @ new2)"
    using a a2 by (simp add: workerRun_Cons)
  moreover have "subseq (map segKey (new1 @ new2)) (map itemKey (consumed1 @ consumed2))"
    unfolding map_append using c c2 by (rule list_emb_append_mono)
  ultimately show ?case by blast
qed

text \<open>
  Claim C3. When the transcription of the item at the head of the queue fails with a
  message, the iteration reports the message, adds no segment, removes the item, and the
  worker stays active if items remain. A transcription fails in this sense when the
  local pipeline throws, when the request to the transcription endpoint throws, or when
  the endpoint answers with an error. With three queued items of which the second fails,
  the segment list ends with the segments of items 1 and 3, in this order, and one message
  was reported.
\<close>

theorem error_isolation:
  assumes "isTranscribing s" and "transcriptionQueue s = item # rest"
    and "transcribeItem cfg reply item = Failed message"
  shows "errors (workerIteration cfg reply s) = errors s @ [message]
     \<and> segments (workerIteration cfg reply s) = segments s
     \<and> transcriptionQueue (workerIteration cfg reply s) = rest
     \<and> isTranscribing (workerIteration cfg reply s) = (rest \<noteq> [])
     \<and> (sttProvider cfg \<noteq> str ''whisper-api'' \<and> samples r = Returns n \<and> 8000 \<le> n
          \<and> whisperText r = Throws m \<longrightarrow> transcribeItem cfg r item = Failed m)
     \<and> (sttProvider cfg = str ''whisper-api'' \<and> blobDuration r = Returns d \<and> 1 / 2 \<le> d
          \<and> truthy (map_option trim (whisperApiKey cfg)) = Some wk
          \<and> apiResponse r = Throws m \<longrightarrow> transcribeItem cfg r item = Failed m)
     \<and> (sttProvider cfg = str ''whisper-api'' \<and> blobDuration r = Returns d \<and> 1 / 2 \<le> d
          \<and> truthy (map_option trim (whisperApiKey cfg)) = Some wk
          \<and> apiResponse r = Returns (NotOk e) \<longrightarrow>
          transcribeItem cfg r item = Failed (orElse e (str ''Whisper-API-Fehler'')))
     \<and> map segId (segments (run browserConfig
           [WorkerTimer, WorkerIteration (heard (str ''eins zwei'')),
            WorkerIteration (failing (str ''decoder crashed'')),
            WorkerIteration (heard (str ''drei vier'')), WorkerIteration (heard [])]
           (initial\<lparr>transcriptionQueue := [queuedItem 1, queuedItem 2, queuedItem 3],
                    workerTimers := 1\<rparr>))) = [1, 3]
     \<and> errors (run browserConfig
           [WorkerTimer, WorkerIteration (heard (str ''eins zwei'')),
            WorkerIteration (failing (str ''decoder crashed'')),
            WorkerIteration (heard (str ''drei vier'')), WorkerIteration (heard [])]
           (initial\<lparr>transcriptionQueue := [queuedItem 1, queuedItem 2, queuedItem 3],
                    workerTimers := 1\<rparr>)) = [str ''decoder crashed'']"
proof -
  have "workerIteration cfg reply s =
           s\<lparr>transcriptionQueue := rest, errors := errors s @ [message],
             isTranscribing := (rest \<noteq> [])\<rparr>"
    using assms by (rule failed_iteration)
  then have a: "errors (workerIteration cfg reply s) = errors s @ [message]
     \<and> segments (workerIteration cfg reply s) = segments s
     \<and> transcriptionQueue (workerIteration cfg reply s) = rest
     \<and> isTranscribing (workerIteration cfg reply s) = (rest \<noteq> [])" by simp
  from a throwing_transcription(1) [where cfg = cfg and reply = r and n = n and m = m and item = item]
    throwing_transcription(2) [where cfg = cfg and reply = r and d = d and wk = wk and m = m
      and item = item]
    throwing_transcription(3) [where cfg = cfg and reply = r and d = d and wk = wk and e = e
      and item = item]
    three_items
  show ?thesis by blast
qed

text \<open>The failing second item alone: one message, the third item next.\<close>

theorem error_isolation_witness:
  "errors (workerIteration browserConfig (failing (str ''decoder crashed''))
             (initial\<lparr>isTranscribing := True,
                      transcriptionQueue := [queuedItem 2, queuedItem 3]\<rparr>))
     = [str ''decoder crashed'']
   \<and> transcriptionQueue (workerIteration browserConfig (failing (str ''decoder crashed''))
             (initial\<lparr>isTranscribing := True,
                      transcriptionQueue := [queuedItem 2, queuedItem 3]\<rparr>))
     = [queuedItem 3]
   \<and> isTranscribing (workerIteration browserConfig (failing (str ''decoder crashed''))
             (initial\<lparr>isTranscribing := True,
                      transcriptionQueue := [queuedItem 2, queuedItem 3]\<rparr>))"
proof -
  let ?s = "initial\<lparr>isTranscribing := True,
                     transcriptionQueue := [queuedItem 2, queuedItem 3]\<rparr>"
  have a: "isTranscribing ?s" and b: "transcriptionQueue ?s = queuedItem 2 # [queuedItem 3]"
    by simp_all
  have c: "transcribeItem browserConfig (failing (str ''decoder crashed'')) (queuedItem 2) =
     Failed (str ''decoder crashed'')"
    by (rule throwing_transcription(1) [where n = 64000])
       (simp_all add: browserConfig_def str_def failing_def)
  have e: "errors ?s = []" by (simp add: initial_def)
  from error_isolation [OF a b c] e show ?thesis by simp
qed

section \<open>Evaluating scenarios\<close>

lemma loud: "\<not> belowSilenceThreshold loudData"
  by (simp add: belowSilenceThreshold_def average_def loudData_def silenceThreshold_def
      sum_list_replicate)

lemma silent: "belowSilenceThreshold silentData"
  by (simp add: belowSilenceThreshold_def average_def silentData_def silenceThreshold_def
      sum_list_replicate)

lemmas step_defs =
  toggleLiveMode_def liveButtonDisabled_def
  toggleLiveMode_start_def toggleLiveMode_stop_def dataAvailable_def checkVoiceActivity_def
  minChunksForSegment_def processLiveSegment_def processLiveSegment_onstop_def
  processLiveSegment_saved_def enqueueSegment_def finishSeal_def stopRelease_def
  stopDrained_def drainCheck_def finalSave_def stopLiveMode_def stopWait_def
  stopFinalSeal_def processTranscriptionQueue_def loopTest_def blobSize_def projectId_def
  truthy_def str_def Let_def loud silent workerIteration_def appendSegment_def
  transcribeItem_def newSegment_def heard_def failing_def trim_def isWhiteSpace_def

lemmas scenario_defs =
  endToEnd_def untilIdle_def speech_def ticks_def initial_def browserConfig_def
  desktopConfig_def firstSession_def secondSession_def desktopSession_def
  stopBeforeSaved_def savedAfterStop_def overlappingSaves_def heardWhole_def

lemma replicate_20: "replicate 20 x = [x, x, x, x, x, x, x, x, x, x, x, x, x, x, x, x, x, x, x, x]"
  by (simp add: numeral_eq_Suc)

lemma replicate_32:
  "replicate 32 x = [x, x, x, x, x, x, x, x, x, x, x, x, x, x, x, x, x, x, x, x, x, x, x, x,
     x, x, x, x, x, x, x, x]"
  by (simp add: numeral_eq_Suc)

section \<open>The end-to-end scenario\<close>

text \<open>
  Claim C7. A session that starts at \<open>t0\<close>, hears two seconds of loud audio and then 3.5
  seconds of silence, with a tick every 100 ms and the idle time at its default of
  3000 ms: the silence timer starts with the first silent frame, at 2100 ms; up to the
  frame at 5100 ms nothing is sealed and the countdown has reached 0; the frame at
  5200 ms, the first at which more than 3000 ms have passed on the timer, starts the one
  seal. The item queued from it has index 0 and holds every chunk recorded so far (twenty
  loud, thirty-two silent and the last one of the stopped recorder). After 5.5 seconds
  there is still one stored blob, no seal in flight and no timer. The claim says that the
  start time of the item is 0, the offset at which its audio begins. The source reads
  the clock when the seal begins, so the start time of the item is 5.2 seconds, the
  offset at which its audio ends; the worker takes it for the start of the segment and
  adds the duration of the audio, so the segment made from the 5.2 seconds of audio is
  said to run from 5.2 to 10.4 seconds.
\<close>

theorem start_time_is_seal_time:
  "sealFrame (run browserConfig (untilIdle t0) initial) = None
   \<and> transcriptionQueue (run browserConfig (untilIdle t0) initial) = []
   \<and> silenceStart (run browserConfig (untilIdle t0) initial) = Some (t0 + 2100)
   \<and> silenceCountdown (run browserConfig (untilIdle t0) initial) = Some 0
   \<and> sealFrame (run browserConfig (untilIdle t0 @ [AnimationFrame (t0 + 5200) silentData]) initial)
       = Some \<lparr>sealStartTime = 26 / 5,
                sealChunks = replicate 20 1600 @ replicate 32 400, sealAwaited = False\<rparr>
   \<and> transcriptionQueue (run browserConfig (endToEnd t0) initial)
       = [\<lparr>audioBlob = replicate 20 1600 @ replicate 32 400 @ [100], segmentIndex = 0,
            startTime = 26 / 5, audioFilePath = None\<rparr>]
   \<and> map startTime (transcriptionQueue (run browserConfig (endToEnd t0) initial)) \<noteq> [0]
   \<and> length (liveAudioBlobs (run browserConfig (endToEnd t0) initial)) = 1
   \<and> sealFrame (run browserConfig (endToEnd t0) initial) = None
   \<and> silenceStart (run browserConfig (endToEnd t0) initial) = None
   \<and> map segStartTime (segments (run browserConfig
         (endToEnd t0 @ [WorkerTimer, WorkerIteration heardWhole]) initial)) = [26 / 5]
   \<and> map segEndTime (segments (run browserConfig
         (endToEnd t0 @ [WorkerTimer, WorkerIteration heardWhole]) initial)) = [52 / 5]"
  by (simp add: scenario_defs step_defs replicate_20 replicate_32 split del: if_split)

text \<open>
  When the silence goes on, the loop seals again: the restarted recorder has buffered 15
  chunks at 6.7 seconds, and the frame at 9.8 seconds finds more than 3000 ms on the
  timer. The second item holds silence only.
\<close>

lemma long_silence_seals_again:
  "map (\<lambda>item. (segmentIndex item, startTime item, blobSize (audioBlob item)))
     (transcriptionQueue (run browserConfig (endToEnd t0 @ silenceGoesOn t0) initial))
     = [(0, 26 / 5, 44900), (1, 49 / 5, 18500)]"
  by (simp add: scenario_defs step_defs silenceGoesOn_def split del: if_split)

section \<open>Segment indices\<close>

lemma small_blob_discarded:
  assumes "sealFrame s = Some f"
    and "blobSize (sealChunks f @ drop (length (sealChunks f)) (audioChunks s)) < 1000"
  shows "transcriptionQueue (processLiveSegment_onstop cfg s) = transcriptionQueue s
     \<and> liveAudioBlobs (processLiveSegment_onstop cfg s) = liveAudioBlobs s
     \<and> saveFrames (processLiveSegment_onstop cfg s) = saveFrames s
     \<and> savedAudio (processLiveSegment_onstop cfg s) = savedAudio s
     \<and> segments (processLiveSegment_onstop cfg s) = segments s
     \<and> \<not> isProcessingSegment (processLiveSegment_onstop cfg s)"
  using assms
  by (simp add: processLiveSegment_onstop_def Let_def finishSeal_def stopRelease_def
      stopDrained_def)

lemma queued_index:
  assumes "sealFrame s = Some f"
    and "\<not> blobSize (sealChunks f @ drop (length (sealChunks f)) (audioChunks s)) < 1000"
    and "projectId s = None \<or> \<not> desktopProjects cfg"
  shows "transcriptionQueue (processLiveSegment_onstop cfg s) =
           transcriptionQueue s
             @ [\<lparr>audioBlob = sealChunks f @ drop (length (sealChunks f)) (audioChunks s),
                 segmentIndex = length (liveAudioBlobs s), startTime = sealStartTime f,
                 audioFilePath = None\<rparr>]
     \<and> length (liveAudioBlobs (processLiveSegment_onstop cfg s)) = length (liveAudioBlobs s) + 1"
  using assms
  by (auto simp: processLiveSegment_onstop_def Let_def finishSeal_def stopRelease_def
      stopDrained_def enqueueSegment_def projectId_def split: option.splits)



section \<open>The stop sequence\<close>

text \<open>
  The forced last seal is made when the recorder runs. A recorder stopped by a seal in
  flight is not sealed again: \<open>stopLiveMode\<close> goes on to release the stream.
\<close>

lemma final_seal_needs_running_recorder:
  "mediaRecorder s \<noteq> Some Recording \<Longrightarrow> stopFinalSeal now s = stopRelease s"
  by (simp add: stopFinalSeal_def)

text \<open>After the fiftieth wait of 100 ms \<open>stopLiveMode\<close> goes on, whatever the lock says.\<close>

lemma wait_ends_after_fifty: "stopWait now 49 s = stopFinalSeal now s"
  by (simp add: stopWait_def)

text \<open>
  The check that ends the wait for the queue reads the queue and the worker flag. It
  does not read the calls of \<open>processLiveSegment\<close> that wait for their audio file to be
  saved and will queue an item afterwards.
\<close>

lemma drain_check_ignores_pending_saves:
  assumes "transcriptionQueue s = []" and "\<not> isTranscribing s"
  shows "drainCheck s =
           s\<lparr>isProcessingAfterLiveStop := False, stopPc := NotStopping,
             finalDelays := finalDelays s @ [stopSegments s]\<rparr>"
  using assms by (simp add: drainCheck_def stopDrained_def)

text \<open>
  The final write lists the audio files of the segments in the closure of the click,
  whatever the segment list holds by then.
\<close>

lemma final_write_uses_closure:
  assumes "projectId s = Some p" and "desktopProjects cfg"
  shows "finalSave cfg closureSegments s =
           s\<lparr>projectSaves := projectSaves s
                  @ [(p, SaveAudioFiles (map audioFileOf closureSegments))]\<rparr>"
  using assms by (simp add: finalSave_def)

lemma sameStop_inv: "sameStop s' s \<Longrightarrow> stopInv s \<Longrightarrow> stopInv s'"
  by (simp add: sameStop_def stopInv_def stopActive_def)

lemma stopInv_if: "stopInv a \<Longrightarrow> stopInv b \<Longrightarrow> stopInv (if c then a else b)"
  by simp

lemma stopDrained_inv: "framePending s \<longrightarrow> liveAnimation s \<Longrightarrow> stopInv (stopDrained s)"
  by (simp add: stopDrained_def stopInv_def stopActive_def)

lemma stopRelease_inv:
  assumes "\<not> liveModeActive s" and "\<not> framePending s" and "isProcessingAfterLiveStop s"
  shows "stopInv (stopRelease s)"
  using assms by (simp add: stopRelease_def stopDrained_def stopInv_def stopActive_def Let_def)

lemma finishSeal_inv: "stopInv s \<Longrightarrow> stopInv (finishSeal awaited s)"
proof (cases "awaited \<and> stopPc s = AwaitingFinalSeal")
  case True
  assume "stopInv s"
  with True have "\<not> liveModeActive s" "\<not> framePending s" "isProcessingAfterLiveStop s"
    by (simp_all add: stopInv_def stopActive_def)
  then have "stopInv (stopRelease s)" by (rule stopRelease_inv)
  with True show ?thesis by (simp add: finishSeal_def)
next
  case False
  assume "stopInv s"
  with False show ?thesis by (auto simp: finishSeal_def)
qed

lemma enqueueSegment_inv:
  assumes "stopInv s"
  shows "stopInv (enqueueSegment blob index t path awaited s)"
proof -
  let ?s1 = "s\<lparr>liveAudioBlobs := liveAudioBlobs s @ [(blob, t)],
                transcriptionQueue := transcriptionQueue s
                  @ [\<lparr>audioBlob = blob, segmentIndex = index, startTime = t,
                      audioFilePath = path\<rparr>]\<rparr>"
  let ?s2 = "if \<not> isTranscribing ?s1 then ?s1\<lparr>workerTimers := workerTimers ?s1 + 1\<rparr> else ?s1"
  have "sameStop ?s2 s" by (simp add: sameStop_def)
  from this assms have "stopInv ?s2" by (rule sameStop_inv)
  then have "stopInv (finishSeal awaited ?s2)" by (rule finishSeal_inv)
  then show ?thesis by (simp add: enqueueSegment_def Let_def)
qed

lemma processLiveSegment_same: "sameStop (processLiveSegment now awaited s) s"
  by (simp add: processLiveSegment_def sameStop_def)

lemma onstop_inv:
  assumes "stopInv s"
  shows "stopInv (processLiveSegment_onstop cfg s)"
proof (cases "sealFrame s")
  case None
  with assms show ?thesis by (simp add: processLiveSegment_onstop_def)
next
  case (Some f)
  let ?s1 = "s\<lparr>audioChunks := [], sealFrame := None\<rparr>"
  let ?s2 = "if liveModeActive ?s1 \<and> recordingStream ?s1
             then ?s1\<lparr>mediaRecorder := Some Recording\<rparr> else ?s1"
  let ?s3 = "?s2\<lparr>isProcessingSegment := False\<rparr>"
  have "sameStop ?s3 s" by (simp add: sameStop_def)
  from this assms have i3: "stopInv ?s3" by (rule sameStop_inv)
  have a: "stopInv (finishSeal aw ?s3)" for aw using i3 by (rule finishSeal_inv)
  have b: "stopInv (enqueueSegment bl ix t pa aw ?s3)" for bl ix t pa aw
    using i3 by (rule enqueueSegment_inv)
  have c: "stopInv (?s3\<lparr>saveFrames := fr\<rparr>)" for fr
    by (rule sameStop_inv [OF _ i3]) (simp add: sameStop_def)
  show ?thesis
    unfolding processLiveSegment_onstop_def Some option.case Let_def
    by (intro stopInv_if a b c | cases "projectId ?s3"; simp only: option.case)+
qed


lemma saved_inv:
  assumes "stopInv s"
  shows "stopInv (processLiveSegment_saved k path s)"
proof (cases "k < length (saveFrames s)")
  case False
  with assms show ?thesis by (simp add: processLiveSegment_saved_def)
next
  case True
  let ?f = "saveFrames s ! k"
  let ?s1 = "s\<lparr>saveFrames := take k (saveFrames s) @ drop (Suc k) (saveFrames s),
                savedAudio := (if path \<noteq> None
                               then savedAudio s @ [(saveProject ?f, saveIndex ?f, saveBlob ?f)]
                               else savedAudio s)\<rparr>"
  have "sameStop ?s1 s" by (simp add: sameStop_def)
  from this assms have "stopInv ?s1" by (rule sameStop_inv)
  then have "stopInv (enqueueSegment (saveBlob ?f) (saveIndex ?f) (saveStartTime ?f) path
                        (saveAwaited ?f) ?s1)"
    by (rule enqueueSegment_inv)
  with True show ?thesis by (simp add: processLiveSegment_saved_def Let_def)
qed

lemma frame_inv:
  assumes "stopInv s" and "framePending s"
  shows "stopInv (checkVoiceActivity now dataArray (s\<lparr>framePending := False\<rparr>))"
proof -
  from assms have na: "\<not> stopActive s" and la: "liveAnimation s"
    and pr: "stopPc s \<noteq> NotStopping \<longrightarrow> isProcessingAfterLiveStop s"
    by (auto simp: stopInv_def)
  let ?r = "checkVoiceActivity now dataArray (s\<lparr>framePending := False\<rparr>)"
  have "stopPc ?r = stopPc s \<and> isProcessingAfterLiveStop ?r = isProcessingAfterLiveStop s
        \<and> (framePending ?r \<longrightarrow> liveAnimation ?r)"
    using la
    by (simp add: checkVoiceActivity_def processLiveSegment_def Let_def split: option.splits)
  with na pr show ?thesis by (auto simp: stopInv_def stopActive_def)
qed

lemma dataAvailable_same: "sameStop (dataAvailable n s) s"
  by (simp add: dataAvailable_def sameStop_def)

lemma dataAvailable_inv: "stopInv s \<Longrightarrow> stopInv (dataAvailable n s)"
  using dataAvailable_same by (rule sameStop_inv)

lemma workerTimer_same: "sameStop (step cfg WorkerTimer s) s"
  by (simp add: processTranscriptionQueue_def sameStop_def)

lemma workerTimer_inv: "stopInv s \<Longrightarrow> stopInv (step cfg WorkerTimer s)"
  using workerTimer_same by (rule sameStop_inv)

lemma workerIteration_same: "sameStop (workerIteration cfg reply s) s"
  by (simp add: workerIteration_def loopTest_def appendSegment_def sameStop_def Let_def
      split: list.splits item_result.splits)

lemma workerIteration_inv: "stopInv s \<Longrightarrow> stopInv (workerIteration cfg reply s)"
  using workerIteration_same by (rule sameStop_inv)

lemma click_inv:
  assumes "stopInv s"
  shows "stopInv (step cfg (LiveButtonClicked now created) s)"
proof (cases "isProcessingAfterLiveStop s")
  case True
  with assms show ?thesis by (simp add: liveButtonDisabled_def)
next
  case False
  with assms have pc: "stopPc s = NotStopping" and fl: "framePending s \<longrightarrow> liveAnimation s"
    by (auto simp: stopInv_def)
  have "stopInv (toggleLiveMode_stop s)"
    using fl by (simp add: toggleLiveMode_stop_def stopInv_def stopActive_def)
  moreover have "stopInv (toggleLiveMode_start cfg now created s)"
    using pc by (simp add: toggleLiveMode_start_def stopInv_def stopActive_def Let_def)
  ultimately show ?thesis
    using False by (simp add: liveButtonDisabled_def toggleLiveMode_def)
qed

lemma stopFinalSeal_inv:
  assumes "\<not> liveModeActive s" and "\<not> framePending s" and "isProcessingAfterLiveStop s"
  shows "stopInv (stopFinalSeal now s)"
proof -
  let ?s1 = "processLiveSegment now True s"
  have same: "sameStop ?s1 s" by (rule processLiveSegment_same)
  with assms have a: "\<not> liveModeActive ?s1" "\<not> framePending ?s1" "isProcessingAfterLiveStop ?s1"
    by (simp_all add: sameStop_def)
  then have r1: "stopInv (stopRelease ?s1)" by (rule stopRelease_inv)
  from a have r2: "stopInv (?s1\<lparr>stopPc := AwaitingFinalSeal\<rparr>)"
    by (simp add: stopInv_def stopActive_def)
  from assms have r3: "stopInv (stopRelease s)" by (rule stopRelease_inv)
  show ?thesis
    unfolding stopFinalSeal_def Let_def by (intro stopInv_if r1 r2 r3)
qed

lemma stopLiveMode_inv:
  assumes "stopInv s" and "stopPc s = StopScheduled"
  shows "stopInv (stopLiveMode now s)"
proof -
  from assms have pr: "isProcessingAfterLiveStop s" and fl: "framePending s \<longrightarrow> liveAnimation s"
    by (auto simp: stopInv_def)
  let ?s1 = "s\<lparr>liveModeActive := False\<rparr>"
  let ?s2 = "if liveAnimation ?s1
             then ?s1\<lparr>framePending := False, liveAnimation := False\<rparr> else ?s1"
  have a: "\<not> liveModeActive ?s2" "\<not> framePending ?s2" "isProcessingAfterLiveStop ?s2"
    using pr fl by auto
  then have r1: "stopInv (stopFinalSeal now ?s2)" by (rule stopFinalSeal_inv)
  from a have r2: "stopInv (?s2\<lparr>stopPc := WaitingForSeal 0\<rparr>)"
    by (simp add: stopInv_def stopActive_def)
  show ?thesis
    unfolding stopLiveMode_def Let_def by (intro stopInv_if r1 r2)
qed

lemma stopWait_inv:
  assumes "stopInv s" and "stopPc s = WaitingForSeal n"
  shows "stopInv (stopWait now n s)"
proof -
  from assms have a: "\<not> liveModeActive s" "\<not> framePending s" "isProcessingAfterLiveStop s"
    by (auto simp: stopInv_def stopActive_def)
  then have r1: "stopInv (stopFinalSeal now s)" by (rule stopFinalSeal_inv)
  from a have r2: "stopInv (s\<lparr>stopPc := WaitingForSeal (n + 1)\<rparr>)"
    by (simp add: stopInv_def stopActive_def)
  show ?thesis
    unfolding stopWait_def Let_def by (intro stopInv_if r1 r2)
qed

lemma drainCheck_inv: "stopInv s \<Longrightarrow> stopInv (drainCheck s)"
  unfolding drainCheck_def
  by (intro stopInv_if stopDrained_inv) (simp_all add: stopInv_def)

lemma finalSave_same: "sameStop (finalSave cfg c (s\<lparr>finalDelays := r\<rparr>)) s"
  by (simp add: finalSave_def sameStop_def Let_def split: option.splits)

lemma step_inv: "stopInv s \<Longrightarrow> stopInv (step cfg e s)"
proof (cases e)
  case (AnimationFrame now dataArray)
  assume "stopInv s"
  then show ?thesis using AnimationFrame by (simp add: frame_inv)
next
  case (DataAvailable n)
  assume "stopInv s"
  then show ?thesis using DataAvailable by (simp add: dataAvailable_inv)
next
  case RecorderStopped
  assume "stopInv s"
  then show ?thesis using RecorderStopped by (simp add: onstop_inv)
next
  case (AudioSaved k path)
  assume "stopInv s"
  then show ?thesis using AudioSaved by (simp add: saved_inv)
next
  case WorkerTimer
  assume "stopInv s"
  then show ?thesis using WorkerTimer by (simp only: workerTimer_inv)
next
  case (WorkerIteration reply)
  assume "stopInv s"
  then show ?thesis using WorkerIteration by (simp add: workerIteration_inv)
next
  case (LiveButtonClicked now created)
  assume "stopInv s"
  then show ?thesis using LiveButtonClicked by (simp only: click_inv)
next
  case (StopTimer now)
  assume "stopInv s"
  then show ?thesis using StopTimer by (simp add: stopLiveMode_inv)
next
  case (StopWaitTimer now)
  assume "stopInv s"
  then show ?thesis using StopWaitTimer by (simp add: stopWait_inv split: stop_pc.splits)
next
  case DrainTimer
  assume "stopInv s"
  then show ?thesis using DrainTimer by (simp add: drainCheck_inv)
next
  case FinalDelayTimer
  assume i: "stopInv s"
  show ?thesis
  proof (cases "finalDelays s")
    case Nil
    with i FinalDelayTimer show ?thesis by simp
  next
    case (Cons c r)
    have "stopInv (finalSave cfg c (s\<lparr>finalDelays := r\<rparr>))"
      using finalSave_same i by (rule sameStop_inv)
    with Cons FinalDelayTimer show ?thesis by simp
  qed
qed

lemma initial_inv: "stopInv initial"
  by (simp add: stopInv_def stopActive_def initial_def)

lemma run_inv: "stopInv s \<Longrightarrow> stopInv (run cfg es s)"
  by (induction es arbitrary: s) (simp_all add: step_inv)

text \<open>
  From the first step of \<open>stopLiveMode\<close> to the end of the wait for the queue, in every
  run of the component: the session is inactive, a frame of the voice activity loop
  changes nothing, so that no seal is started by a pause, and neither does a click; and
  while the stop sequence waits for the queue, the stream, the audio context and the
  analyser are released.
\<close>

lemma no_frame_while_stopping:
  assumes "stopActive (run cfg es initial)"
  shows "\<not> liveModeActive (run cfg es initial)
     \<and> step cfg (AnimationFrame now dataArray) (run cfg es initial) = run cfg es initial
     \<and> step cfg (LiveButtonClicked now created) (run cfg es initial) = run cfg es initial"
proof -
  have "stopInv (run cfg es initial)" using initial_inv by (rule run_inv)
  with assms show ?thesis by (simp add: stopInv_def stopActive_def liveButtonDisabled_def)
qed

lemma released_while_draining:
  assumes "stopPc (run cfg es initial) = Draining"
  shows "\<not> recordingStream (run cfg es initial) \<and> \<not> audioContext (run cfg es initial)
     \<and> \<not> liveAnalyser (run cfg es initial)"
proof -
  have "stopInv (run cfg es initial)" using initial_inv by (rule run_inv)
  with assms show ?thesis by (simp add: stopInv_def)
qed

text \<open>
  Claim C1. The stop sequence ends with the final write of the list of audio files,
  which the claim places after the full drain. In the source the list is computed from
  the segment list of the render in which the button was clicked, and the drain check
  reads the queue and the worker only.

  In the one-session project the last segment is transcribed after the click: when the
  stop sequence has ended, with the queue empty and the worker idle, the project has one
  segment with the audio file \<open>audio/segment_0000.webm\<close>, and the persistence
  collaborator has received the segment list, the transcript and, last, an empty list of
  audio files.

  In the stop right after a pause the drain check passes while the segment of the pause
  is still being saved: the final write, of an empty list, is made and the stop sequence
  ends with one save pending and no segment; the segment is queued, transcribed and
  stored afterwards.
\<close>

theorem final_write_misses_segments:
  "map audioFileOf (segments (run desktopConfig desktopSession initial))
       = [str ''audio/segment_0000.webm'']
   \<and> map audioFilesWritten (projectSaves (run desktopConfig desktopSession initial))
       = [None, None, Some []]
   \<and> transcriptionQueue (run desktopConfig desktopSession initial) = []
   \<and> \<not> isTranscribing (run desktopConfig desktopSession initial)
   \<and> saveFrames (run desktopConfig desktopSession initial) = []
   \<and> stopPc (run desktopConfig desktopSession initial) = NotStopping
   \<and> finalDelays (run desktopConfig desktopSession initial) = []
   \<and> map audioFilesWritten (projectSaves (run desktopConfig stopBeforeSaved initial))
       = [Some []]
   \<and> map saveIndex (saveFrames (run desktopConfig stopBeforeSaved initial)) = [0]
   \<and> segments (run desktopConfig stopBeforeSaved initial) = []
   \<and> stopPc (run desktopConfig stopBeforeSaved initial) = NotStopping
   \<and> finalDelays (run desktopConfig stopBeforeSaved initial) = []
   \<and> \<not> isProcessingAfterLiveStop (run desktopConfig stopBeforeSaved initial)
   \<and> map audioFileOf (segments (run desktopConfig (stopBeforeSaved @ savedAfterStop) initial))
       = [str ''audio/segment_0000.webm'']
   \<and> map audioFilesWritten
         (projectSaves (run desktopConfig (stopBeforeSaved @ savedAfterStop) initial))
       = [Some [], None, None]"
  by (simp add: scenario_defs step_defs audioFileOf_def orElse_def split del: if_split)

end
